theory Spec2Isabelle
  imports Complex_Main "HOL-Library.Word" "HOL-Library.Log_Nat"
begin

section \<open>MatrixDraw: the frame renderer and the draw loop of matrixdraw.h\<close>

text \<open>
  The theory embeds the two static member functions of class \<open>MatrixDraw\<close>
  (\<open>DrawFrame\<close> and \<open>RunDrawLoop\<close>) and the accessor \<open>FPS\<close>.

  Conventions of the embedding.
  \<^item> A C++ \<open>double\<close> is a value of the type \<open>double\<close> below: an IEEE 754 binary64 number
    with signed zeros, infinities and NaN, whose operations round to nearest, ties to
    even. No operation on it traps; a division by zero gives an infinity or NaN. Every
    operation of the source is rounded once, to double precision, in the default
    rounding mode.
  \<^item> A C++ \<open>int\<close> has 32 bits. The dimensions of the surface are stored as 32-bit words
    and read as signed numbers. The products and sums the program forms in \<open>int\<close> are
    computed on integers and checked against the range of \<open>int\<close>: a result outside it
    is undefined behaviour in C++, which the model makes the error \<open>SignedOverflow\<close>.
  \<^item> The collaborators that matrixdraw.h only uses (the buffer manager, the clock,
    the interrupt flag, the sleep of the thread) are operations on an abstract
    world \<open>'w\<close>: each call returns its result together with the next world, so
    anything a concurrent producer or a signal handler does between two calls is
    part of the operation's result.
  \<^item> An exception is a value: \<open>Inl SizeMismatch\<close>, or the outcome \<open>Threw SizeMismatch\<close> of
    the loop. State written before the \<open>throw\<close> stays written. Undefined behaviour is a
    value as well (the other errors, and the outcome \<open>Undefined\<close>): it ends the run, and
    no theorem says anything about what happens after it.
\<close>

subsection \<open>IEEE 754 double precision\<close>

text \<open>
  A \<open>double\<close> is a finite number, the negative zero, an infinity or NaN. \<open>Finite v\<close>
  carries the real number \<open>v\<close> it stands for, and \<open>Finite 0\<close> is the positive zero. The
  numbers a program can hold are the results of \<open>round_to_double\<close> and the constants
  written in the source, all of which are representable.
\<close>

datatype double = Finite real | NegZero | PosInf | NegInf | NaN

text \<open>
  Rounding. \<open>ilog2 a\<close> is the binary exponent of \<open>a > 0\<close>, the integer \<open>e\<close> with
  \<open>2\<^sup>e \<le> a < 2\<^sup>e\<^sup>+\<^sup>1\<close> (lemma \<open>ilog2_bounds\<close>). \<open>quantum a\<close> is the exponent of the unit in the
  last place of the 53-bit significand at \<open>a\<close>, which is never below that of the
  subnormal numbers, \<open>-1074\<close>. \<open>round_mag a\<close> is the multiple of that unit nearest to \<open>a\<close>,
  the even one of two that are equally near. A result of at least \<open>2\<^sup>1\<^sup>0\<^sup>2\<^sup>4\<close> is an
  overflow and rounds to an infinity.
\<close>

definition ilog2 :: "real \<Rightarrow> int" where
  "ilog2 a = (if 1 \<le> a then bitlen \<lfloor>a\<rfloor> - 1 else - bitlen (\<lceil>1 / a\<rceil> - 1))"

definition round_even :: "real \<Rightarrow> int" where
  "round_even x =
     (let n = \<lfloor>x\<rfloor>; d = x - of_int n
      in if d < 1 / 2 then n else if 1 / 2 < d then n + 1 else if even n then n else n + 1)"

definition quantum :: "real \<Rightarrow> int" where
  "quantum a = max (ilog2 a - 52) (- 1074)"

definition round_mag :: "real \<Rightarrow> real" where
  "round_mag a = (if a = 0 then 0 else of_int (round_even (a / 2 powi quantum a)) * 2 powi quantum a)"

definition signed_infinity :: "bool \<Rightarrow> double" where
  "signed_infinity neg = (if neg then NegInf else PosInf)"

definition signed_zero :: "bool \<Rightarrow> double" where
  "signed_zero neg = (if neg then NegZero else Finite 0)"

text \<open>The double nearest to the real number of magnitude \<open>a\<close> and sign \<open>neg\<close>.\<close>

definition round_to_double :: "bool \<Rightarrow> real \<Rightarrow> double" where
  "round_to_double neg a =
     (let v = round_mag a
      in if 2 ^ 1024 \<le> v then signed_infinity neg
         else if v = 0 then signed_zero neg
         else Finite (if neg then - v else v))"

fun is_nan :: "double \<Rightarrow> bool" where
  "is_nan NaN = True"
| "is_nan d = False"

fun is_inf :: "double \<Rightarrow> bool" where
  "is_inf PosInf = True"
| "is_inf NegInf = True"
| "is_inf d = False"

fun is_zero :: "double \<Rightarrow> bool" where
  "is_zero (Finite v) = (v = 0)"
| "is_zero NegZero = True"
| "is_zero d = False"

text \<open>The sign bit, and the real number a finite double stands for.\<close>

fun is_neg :: "double \<Rightarrow> bool" where
  "is_neg (Finite v) = (v < 0)"
| "is_neg NegZero = True"
| "is_neg NegInf = True"
| "is_neg d = False"

fun valof :: "double \<Rightarrow> real" where
  "valof (Finite v) = v"
| "valof d = 0"

fun double_neg :: "double \<Rightarrow> double" where
  "double_neg (Finite v) = (if v = 0 then NegZero else Finite (- v))"
| "double_neg NegZero = Finite 0"
| "double_neg PosInf = NegInf"
| "double_neg NegInf = PosInf"
| "double_neg NaN = NaN"

text \<open>
  The four operations. The sum of two zeros is negative only when both are; any other
  sum that is exactly zero is the positive zero. The sign of a product or quotient is
  the exclusive or of the signs. \<open>\<infinity> - \<infinity>\<close>, \<open>0 * \<infinity>\<close>, \<open>0 / 0\<close> and \<open>\<infinity> / \<infinity>\<close> are NaN, and a
  number other than zero divided by zero is an infinity.
\<close>

definition double_add :: "double \<Rightarrow> double \<Rightarrow> double" where
  "double_add a b =
     (if is_nan a \<or> is_nan b then NaN
      else if is_inf a then (if is_inf b \<and> a \<noteq> b then NaN else a)
      else if is_inf b then b
      else if is_zero a \<and> is_zero b then signed_zero (is_neg a \<and> is_neg b)
      else if valof a + valof b = 0 then Finite 0
      else round_to_double (valof a + valof b < 0) \<bar>valof a + valof b\<bar>)"

definition double_sub :: "double \<Rightarrow> double \<Rightarrow> double" where
  "double_sub a b = double_add a (double_neg b)"

definition double_mul :: "double \<Rightarrow> double \<Rightarrow> double" where
  "double_mul a b =
     (if is_nan a \<or> is_nan b then NaN
      else if is_inf a \<or> is_inf b
           then (if is_zero a \<or> is_zero b then NaN else signed_infinity (is_neg a \<noteq> is_neg b))
      else round_to_double (is_neg a \<noteq> is_neg b) \<bar>valof a * valof b\<bar>)"

definition double_div :: "double \<Rightarrow> double \<Rightarrow> double" where
  "double_div a b =
     (if is_nan a \<or> is_nan b then NaN
      else if is_inf a then (if is_inf b then NaN else signed_infinity (is_neg a \<noteq> is_neg b))
      else if is_inf b then signed_zero (is_neg a \<noteq> is_neg b)
      else if is_zero b then (if is_zero a then NaN else signed_infinity (is_neg a \<noteq> is_neg b))
      else round_to_double (is_neg a \<noteq> is_neg b) \<bar>valof a / valof b\<bar>)"

text \<open>
  The comparisons \<open><\<close> and \<open><=\<close> of C++ on doubles: false when an operand is NaN, and the
  two zeros are equal. \<open>0\<close> is the double an \<open>int\<close> zero converts to, the positive zero.
\<close>

definition double_less :: "double \<Rightarrow> double \<Rightarrow> bool" where
  "double_less a b \<longleftrightarrow>
     \<not> is_nan a \<and> \<not> is_nan b \<and> a \<noteq> PosInf \<and> b \<noteq> NegInf
   \<and> (a = NegInf \<or> b = PosInf \<or> valof a < valof b)"

definition double_le :: "double \<Rightarrow> double \<Rightarrow> bool" where
  "double_le a b \<longleftrightarrow>
     \<not> is_nan a \<and> \<not> is_nan b
   \<and> (a = NegInf \<or> b = PosInf \<or> (a \<noteq> PosInf \<and> b \<noteq> NegInf \<and> valof a \<le> valof b))"

instantiation double :: "{zero, ord}"
begin

definition zero_double :: double where
  "zero_double = Finite 0"

definition less_eq_double :: "double \<Rightarrow> double \<Rightarrow> bool" where
  "less_eq_double a b = double_le a b"

definition less_double :: "double \<Rightarrow> double \<Rightarrow> bool" where
  "less_double a b = double_less a b"

instance ..

end

text \<open>\<open>std::min(a, b)\<close> is \<open>(b < a) ? b : a\<close>.\<close>

definition std_min :: "double \<Rightarrow> double \<Rightarrow> double" where
  "std_min a b = (if b < a then b else a)"

text \<open>
  The conversion of a \<open>double\<close> to \<open>int64_t\<close>: the fractional part is discarded
  (truncation towards zero). When the truncated value is not in the range of \<open>int64_t\<close>,
  and for an infinity or NaN, the conversion is undefined behaviour: \<open>None\<close>.
\<close>

definition to_int64 :: "double \<Rightarrow> int option" where
  "to_int64 d =
     (case d of
        Finite v \<Rightarrow>
          (let t = (if 0 \<le> v then \<lfloor>v\<rfloor> else \<lceil>v\<rceil>)
           in if - (2 ^ 63) \<le> t \<and> t < 2 ^ 63 then Some t else None)
      | NegZero \<Rightarrow> Some 0
      | _ \<Rightarrow> None)"

definition DBL_EPSILON :: double where
  "DBL_EPSILON = Finite (1 / 2 ^ 52)"

subsection \<open>The arithmetic of int\<close>

datatype error =
    SizeMismatch           \<comment> \<open>\<open>std::runtime_error("Size mismatch between data and matrix.")\<close>\<close>
  | SignedOverflow         \<comment> \<open>an \<open>int\<close> result outside the range of \<open>int\<close> (undefined in C++)\<close>
  | IndexOutOfRange        \<comment> \<open>a read of \<open>ColorData()[i]\<close> outside the vector (undefined in C++)\<close>
  | ConversionOutOfRange   \<comment> \<open>a \<open>double\<close> converted to \<open>int64_t\<close> outside its range (undefined in C++)\<close>

definition INT_MIN :: int where
  "INT_MIN = - (2 ^ 31)"

definition INT_MAX :: int where
  "INT_MAX = 2 ^ 31 - 1"

text \<open>\<open>a * b\<close> and \<open>a + b\<close> on two \<open>int\<close> operands.\<close>

definition int_mul :: "int \<Rightarrow> int \<Rightarrow> error + int" where
  "int_mul a b = (if INT_MIN \<le> a * b \<and> a * b \<le> INT_MAX then Inr (a * b) else Inl SignedOverflow)"

definition int_add :: "int \<Rightarrow> int \<Rightarrow> error + int" where
  "int_add a b = (if INT_MIN \<le> a + b \<and> a + b \<le> INT_MAX then Inr (a + b) else Inl SignedOverflow)"

subsection \<open>Pixels, frames and the display surface\<close>

text \<open>
  Modelled from the spec: the type \<open>CRGB\<close> is declared outside matrixdraw.h; the spec
  describes a pixel as a colour triple (red, green, blue), each an 8-bit channel, and
  \<open>DrawFrame\<close> reads its members \<open>r\<close>, \<open>g\<close> and \<open>b\<close>.
\<close>

record CRGB =
  r :: "8 word"
  g :: "8 word"
  b :: "8 word"

text \<open>
  Modelled from the spec: \<open>LEDBuffer\<close> is declared in ledbuffer.h; \<open>DrawFrame\<close> only
  uses \<open>ColorData()\<close>, the ordered sequence of the frame's pixels.
\<close>

record LEDBuffer =
  ColorData :: "CRGB list"

text \<open>
  \<open>ColorData()[i]\<close>: the vector's unchecked \<open>operator[]\<close>. A read outside the vector is
  undefined behaviour; the model makes it an error, so that no theorem can rest on the
  value of such a read.
\<close>

definition ColorData_at :: "LEDBuffer \<Rightarrow> int \<Rightarrow> error + CRGB" where
  "ColorData_at buffer i =
     (if 0 \<le> i \<and> i < int (length (ColorData buffer))
      then Inr (ColorData buffer ! nat i)
      else Inl IndexOutOfRange)"

text \<open>
  Modelled from the spec: \<open>RGBMatrix\<close> is the external display surface of led-matrix.h.
  It exposes a fixed integer \<open>width\<close> and \<open>height\<close> and a per-pixel write
  \<open>SetPixel(x, y, red, green, blue)\<close>. The two dimensions are held as 32-bit words
  (\<open>columns\<close>, \<open>rows\<close>), and \<open>width()\<close> and \<open>height()\<close> return them as an \<open>int\<close>. The surface
  holds the colour last written to each coordinate (\<open>pixels\<close>) and, as a history
  variable, every call of \<open>SetPixel\<close> in the order in which it was made (\<open>calls\<close>).
\<close>

type_synonym rgb = "8 word \<times> 8 word \<times> 8 word"

record RGBMatrix =
  columns :: "32 word"
  rows :: "32 word"
  pixels :: "int \<times> int \<Rightarrow> rgb option"
  calls :: "(int \<times> int \<times> rgb) list"

definition width :: "RGBMatrix \<Rightarrow> int" where
  "width matrix = sint (columns matrix)"

definition height :: "RGBMatrix \<Rightarrow> int" where
  "height matrix = sint (rows matrix)"

definition SetPixel :: "int \<Rightarrow> int \<Rightarrow> 8 word \<Rightarrow> 8 word \<Rightarrow> 8 word \<Rightarrow> RGBMatrix \<Rightarrow> RGBMatrix" where
  "SetPixel x y red green blue matrix =
     matrix\<lparr>pixels := (pixels matrix)((x, y) \<mapsto> (red, green, blue)),
            calls := calls matrix @ [(x, y, (red, green, blue))]\<rparr>"

subsection \<open>The collaborators of the loop\<close>

text \<open>
  \<open>interrupt_received\<close> is the \<open>extern volatile bool\<close> set by a signal handler;
  \<open>AgeOfOldestBuffer\<close> and \<open>PopOldestBuffer\<close> are the two members of
  \<open>LEDBufferManager\<close> the loop calls; \<open>CurrentTime\<close> is \<open>CAppTime::CurrentTime()\<close>;
  \<open>sleep_for\<close> is \<open>std::this_thread::sleep_for\<close> with its argument in microseconds.
  None of them is defined in matrixdraw.h, so each is a parameter. The age is a
  \<open>double\<close>: \<open>std::min\<close> takes two arguments of one type, and the other one is the
  \<open>double\<close> \<open>kMaximumWait\<close>. \<open>CurrentTime()\<close> initialises a \<open>double\<close>.
\<close>

record 'w env =
  interrupt_received :: "'w \<Rightarrow> bool \<times> 'w"
  AgeOfOldestBuffer :: "'w \<Rightarrow> double \<times> 'w"
  PopOldestBuffer :: "'w \<Rightarrow> LEDBuffer option \<times> 'w"
  CurrentTime :: "'w \<Rightarrow> double \<times> 'w"
  sleep_for :: "int \<Rightarrow> 'w \<Rightarrow> 'w"

text \<open>
  The events of a run, one per call site of \<open>RunDrawLoop\<close>, in program order. The trace
  is a history variable: the program never reads it.
\<close>

datatype event =
    is_InterruptRead: InterruptRead bool   \<comment> \<open>line 94: \<open>while (!interrupt_received)\<close>\<close>
  | is_AgeCheck: AgeCheck double           \<comment> \<open>line 101: \<open>while (bufferManager.AgeOfOldestBuffer() <= 0)\<close>\<close>
  | is_Pop: Pop "LEDBuffer option"         \<comment> \<open>line 103: \<open>bufferManager.PopOldestBuffer()\<close>\<close>
  | is_AgeBurn: AgeBurn LEDBuffer double   \<comment> \<open>line 107: the age read of the discard-backlog test, and the buffer held\<close>
  | is_Draw: Draw LEDBuffer                \<comment> \<open>line 110: the call \<open>DrawFrame(buffer.value(), matrix)\<close>\<close>
  | is_AgeDelay: AgeDelay double           \<comment> \<open>line 112: the age read of the delay computation\<close>
  | is_Sleep: Sleep int                    \<comment> \<open>line 114: \<open>sleep_for(std::chrono::microseconds(delay))\<close>\<close>

text \<open>
  The state of the process: the world of the collaborators, the two statics of
  \<open>MatrixDraw\<close> (\<open>lastTime\<close>, local to \<open>DrawFrame\<close>, and \<open>_FPS\<close>), the display surface and
  the trace.
\<close>

record 'w state =
  world :: 'w
  lastTime :: double
  FPS_static :: double
  matrix :: RGBMatrix
  trace :: "event list"

subsection \<open>DrawFrame\<close>

text \<open>
  The inner loop of \<open>DrawFrame\<close>: \<open>for (int y = 0; y < matrix.height(); y++)\<close>, from \<open>y\<close>
  on. The index \<open>y * matrix.width() + x\<close> is formed in \<open>int\<close>, the product first.
  \<open>y++\<close>, \<open>x++\<close> and \<open>matrix.width() - 1 - x\<close> stay in the range of \<open>int\<close> whenever they are
  evaluated (lemma \<open>loop_counters_in_range\<close>), so they are not checked.
\<close>

function DrawFrame_y_loop :: "LEDBuffer \<Rightarrow> int \<Rightarrow> int \<Rightarrow> RGBMatrix \<Rightarrow> (error + unit) \<times> RGBMatrix" where
  "DrawFrame_y_loop buffer x y m =
     (if y < height m then
        (case int_mul y (width m) of
           Inl e \<Rightarrow> (Inl e, m)
         | Inr p \<Rightarrow>
             (case int_add p x of
                Inl e \<Rightarrow> (Inl e, m)
              | Inr i \<Rightarrow>
                  (case ColorData_at buffer i of
                     Inl e \<Rightarrow> (Inl e, m)
                   | Inr color \<Rightarrow>
                       DrawFrame_y_loop buffer x (y + 1)
                         (SetPixel (width m - 1 - x) y (r color) (g color) (b color) m))))
      else (Inr (), m))"
  by pat_completeness auto
termination
  by (relation "measure (\<lambda>(buffer, x, y, m). nat (height m - y))")
     (auto simp: SetPixel_def height_def)

declare DrawFrame_y_loop.simps [simp del]

lemma DrawFrame_y_loop_width: "width (snd (DrawFrame_y_loop buffer x y m)) = width m"
  by (induction buffer x y m rule: DrawFrame_y_loop.induct)
     (subst DrawFrame_y_loop.simps, auto simp: SetPixel_def width_def split: sum.splits)

lemma DrawFrame_y_loop_width_eq: "DrawFrame_y_loop buffer x y m = (res, m') \<Longrightarrow> width m' = width m"
  using DrawFrame_y_loop_width [of buffer x y m] by simp

text \<open>The outer loop of \<open>DrawFrame\<close>: \<open>for (int x = 0; x < matrix.width(); x++)\<close>, from \<open>x\<close> on.\<close>

function DrawFrame_x_loop :: "LEDBuffer \<Rightarrow> int \<Rightarrow> RGBMatrix \<Rightarrow> (error + unit) \<times> RGBMatrix" where
  "DrawFrame_x_loop buffer x m =
     (if x < width m then
        (case DrawFrame_y_loop buffer x 0 m of
           (Inl e, m') \<Rightarrow> (Inl e, m')
         | (Inr u, m') \<Rightarrow> DrawFrame_x_loop buffer (x + 1) m')
      else (Inr (), m))"
  by pat_completeness auto
termination
  by (relation "measure (\<lambda>(buffer, x, m). nat (width m - x))")
     (auto dest: DrawFrame_y_loop_width_eq [OF sym])

declare DrawFrame_x_loop.simps [simp del]

text \<open>
  \<open>DrawFrame\<close>. The timing statics are written first, then the size is checked, then the
  pixels are copied. \<open>(size_t) matrix.width() * matrix.height()\<close> is the product of the
  two dimensions: for the dimensions of a surface (not negative, with a pixel count that
  fits in \<open>size_t\<close>) the product computed in \<open>size_t\<close> is the product of the integers, as
  lemma \<open>size_t_product\<close> shows for every width of \<open>size_t\<close>.
\<close>

definition DrawFrame :: "'w env \<Rightarrow> LEDBuffer \<Rightarrow> 'w state \<Rightarrow> (error + unit) \<times> 'w state" where
  "DrawFrame env buffer s =
     (let (currentTime, w') = CurrentTime env (world s);
          delta = double_add (double_sub currentTime (lastTime s)) DBL_EPSILON;
          s1 = s\<lparr>world := w', lastTime := currentTime, FPS_static := double_div (Finite 1) delta\<rparr>
      in if int (length (ColorData buffer)) \<noteq> width (matrix s1) * height (matrix s1)
         then (Inl SizeMismatch, s1)
         else (case DrawFrame_x_loop buffer 0 (matrix s1) of
                 (res, m') \<Rightarrow> (res, s1\<lparr>matrix := m'\<rparr>)))"

text \<open>\<open>FPS()\<close> returns the static \<open>_FPS\<close>.\<close>

definition FPS :: "'w state \<Rightarrow> double" where
  "FPS s = FPS_static s"


subsection \<open>RunDrawLoop\<close>

text \<open>
  The two constants of \<open>RunDrawLoop\<close>. \<open>burnExtraFrames\<close> is the discard-backlog policy,
  \<open>false\<close> in the source; the loop below takes the policy as a parameter, so that the
  branch the constant switches off can be stated, and \<open>RunDrawLoop\<close> fixes it.
\<close>

definition burnExtraFrames :: bool where
  "burnExtraFrames = False"

definition kMaximumWait :: double where
  "kMaximumWait = Finite 10000"

definition emit :: "event \<Rightarrow> 'w state \<Rightarrow> 'w state" where
  "emit e s = s\<lparr>trace := trace s @ [e]\<rparr>"

text \<open>
  How a loop ends. Both loops of \<open>RunDrawLoop\<close> may run forever, so they take fuel: one
  unit per evaluation of a loop condition. \<open>OutOfFuel\<close> is a run that is still going on.
  \<open>Threw\<close> is an exception that leaves the loop, \<open>Undefined\<close> is undefined behaviour.
  \<open>failed\<close> is the way an error of \<open>DrawFrame\<close> ends the loop: the size mismatch is the
  exception \<open>DrawFrame\<close> throws, every other error is undefined behaviour.
\<close>

datatype 'a outcome = Returned 'a | Threw error | Undefined error | OutOfFuel

definition failed :: "error \<Rightarrow> 'a outcome" where
  "failed e = (if e = SizeMismatch then Threw e else Undefined e)"

text \<open>
  The inner loop, lines 101 to 111: \<open>while (bufferManager.AgeOfOldestBuffer() <= 0)\<close>.
  \<open>burn && AgeOfOldestBuffer() <= 0\<close> short-circuits: the age is read only when \<open>burn\<close>
  holds. An exception of \<open>DrawFrame\<close> leaves the loop.
\<close>

fun draw_due :: "bool \<Rightarrow> 'w env \<Rightarrow> nat \<Rightarrow> 'w state \<Rightarrow> unit outcome \<times> 'w state" where
  "draw_due burn env 0 s = (OutOfFuel, s)"
| "draw_due burn env (Suc fuel) s =
     (let (age, w1) = AgeOfOldestBuffer env (world s);
          s1 = emit (AgeCheck age) (s\<lparr>world := w1\<rparr>)
      in if age \<le> 0 then
           (let (buffer, w2) = PopOldestBuffer env (world s1);
                s2 = emit (Pop buffer) (s1\<lparr>world := w2\<rparr>)
            in case buffer of
                 None \<Rightarrow> draw_due burn env fuel s2
               | Some buf \<Rightarrow>
                   (let (skip, s3) =
                          (if burn then
                             (let (age2, w3) = AgeOfOldestBuffer env (world s2)
                              in (age2 \<le> 0, emit (AgeBurn buf age2) (s2\<lparr>world := w3\<rparr>)))
                           else (False, s2))
                    in if skip then draw_due burn env fuel s3
                       else (case DrawFrame env buf (emit (Draw buf) s3) of
                               (Inl e, s4) \<Rightarrow> (failed e, s4)
                             | (Inr u, s4) \<Rightarrow> draw_due burn env fuel s4)))
         else (Returned (), s1))"

text \<open>
  The outer loop, lines 94 to 116, with the policy as a parameter:
  \<open>while (!interrupt_received) { ... } return true;\<close>
  In \<open>AgeOfOldestBuffer() * 1000000L\<close> the \<open>long\<close> is converted to the double 1000000; the
  \<open>double\<close> that \<open>std::min\<close> returns is converted to the \<open>int64_t\<close> \<open>delay\<close>.
\<close>

fun RunDrawLoop_with :: "bool \<Rightarrow> 'w env \<Rightarrow> nat \<Rightarrow> 'w state \<Rightarrow> bool outcome \<times> 'w state" where
  "RunDrawLoop_with burn env 0 s = (OutOfFuel, s)"
| "RunDrawLoop_with burn env (Suc fuel) s =
     (let (interrupted, w1) = interrupt_received env (world s);
          s1 = emit (InterruptRead interrupted) (s\<lparr>world := w1\<rparr>)
      in if interrupted then (Returned True, s1)
         else (case draw_due burn env fuel s1 of
                 (Returned u, s2) \<Rightarrow>
                   (let (age, w2) = AgeOfOldestBuffer env (world s2);
                        s3 = emit (AgeDelay age) (s2\<lparr>world := w2\<rparr>)
                    in case to_int64 (std_min kMaximumWait (double_mul age (Finite 1000000))) of
                         None \<Rightarrow> (Undefined ConversionOutOfRange, s3)
                       | Some delay \<Rightarrow>
                           RunDrawLoop_with burn env fuel
                             (if delay > 0
                              then emit (Sleep delay) (s3\<lparr>world := sleep_for env delay (world s3)\<rparr>)
                              else s3))
               | (Threw e, s2) \<Rightarrow> (Threw e, s2)
               | (Undefined e, s2) \<Rightarrow> (Undefined e, s2)
               | (OutOfFuel, s2) \<Rightarrow> (OutOfFuel, s2)))"

definition RunDrawLoop :: "'w env \<Rightarrow> nat \<Rightarrow> 'w state \<Rightarrow> bool outcome \<times> 'w state" where
  "RunDrawLoop env fuel s = RunDrawLoop_with burnExtraFrames env fuel s"

subsection \<open>Notions used to state the properties\<close>

text \<open>The colour triple \<open>DrawFrame\<close> passes to \<open>SetPixel\<close> for the source pixel at index \<open>i\<close>.\<close>

definition rgb_of :: "CRGB \<Rightarrow> rgb" where
  "rgb_of color = (r color, g color, b color)"

definition pixel_of :: "LEDBuffer \<Rightarrow> int \<Rightarrow> rgb" where
  "pixel_of buffer i = rgb_of (ColorData buffer ! nat i)"

text \<open>
  The calls of \<open>SetPixel\<close> a complete transfer of \<open>buffer\<close> makes from column \<open>x0\<close> on, in
  order: columns ascending, rows ascending within a column.
\<close>

definition frame_calls :: "LEDBuffer \<Rightarrow> int \<Rightarrow> int \<Rightarrow> int \<Rightarrow> (int \<times> int \<times> rgb) list" where
  "frame_calls buffer W H x0 =
     map (\<lambda>(x, y). (W - 1 - x, y, pixel_of buffer (y * W + x))) (List.product [x0..W - 1] [0..H - 1])"

text \<open>The destination of a call of \<open>SetPixel\<close>, and the calls made between two surfaces.\<close>

definition coords :: "int \<times> int \<times> rgb \<Rightarrow> int \<times> int" where
  "coords c = (fst c, fst (snd c))"

definition calls_made :: "RGBMatrix \<Rightarrow> RGBMatrix \<Rightarrow> (int \<times> int \<times> rgb) list" where
  "calls_made before after = drop (length (calls before)) (calls after)"

text \<open>
  The surfaces on which the index arithmetic of \<open>DrawFrame\<close> stays in the range of \<open>int\<close>:
  the largest index, \<open>width * height - 1\<close>, is at most \<open>INT_MAX\<close>.
\<close>

definition fits_int :: "RGBMatrix \<Rightarrow> bool" where
  "fits_int m \<longleftrightarrow> width m * height m \<le> 2 ^ 31"

text \<open>
  The order of the events of \<open>RunDrawLoop\<close>: \<open>follows burn e e'\<close> holds when \<open>e'\<close> may be
  the event right after \<open>e\<close>.
\<close>

fun follows :: "bool \<Rightarrow> event \<Rightarrow> event \<Rightarrow> bool" where
  "follows burn (InterruptRead i) e' = (\<not> i \<and> is_AgeCheck e')"
| "follows burn (AgeCheck a) e' = (if a \<le> 0 then is_Pop e' else is_AgeDelay e')"
| "follows burn (Pop None) e' = is_AgeCheck e'"
| "follows burn (Pop (Some buf)) e' =
     (if burn then (case e' of AgeBurn buf' a \<Rightarrow> buf' = buf | _ \<Rightarrow> False) else e' = Draw buf)"
| "follows burn (AgeBurn buf a) e' = (burn \<and> (if a \<le> 0 then is_AgeCheck e' else e' = Draw buf))"
| "follows burn (Draw buf) e' = is_AgeCheck e'"
| "follows burn (AgeDelay a) e' =
     (case to_int64 (std_min kMaximumWait (double_mul a (Finite 1000000))) of
        None \<Rightarrow> False
      | Some d \<Rightarrow> if d > 0 then e' = Sleep d else is_InterruptRead e')"
| "follows burn (Sleep d) e' = is_InterruptRead e'"

text \<open>
  How the loops may end. \<open>mismatch\<close> is the condition under which \<open>DrawFrame\<close> throws.
  A loop that has returned has just seen its condition fail; one that has thrown has just
  called \<open>DrawFrame\<close> with a frame of the wrong size; one that has run into undefined
  behaviour has just called \<open>DrawFrame\<close> with a frame of the right size whose indices
  overflow, or has read an age whose delay is outside \<open>int64_t\<close>; one that is out of fuel
  stands at the head of the inner or of the outer loop, so the next event is an age check
  or a read of the interrupt flag.
\<close>

definition mismatch :: "LEDBuffer \<Rightarrow> RGBMatrix \<Rightarrow> bool" where
  "mismatch buffer m \<longleftrightarrow> int (length (ColorData buffer)) \<noteq> width m * height m"

definition inner_end :: "bool \<Rightarrow> unit outcome \<Rightarrow> 'w state \<Rightarrow> bool" where
  "inner_end burn out s' =
     (case out of
        Returned u \<Rightarrow> trace s' \<noteq> []
                      \<and> (case last (trace s') of AgeCheck a \<Rightarrow> \<not> a \<le> 0 | _ \<Rightarrow> False)
      | Threw e \<Rightarrow> e = SizeMismatch \<and> trace s' \<noteq> []
                   \<and> (case last (trace s') of Draw buf \<Rightarrow> mismatch buf (matrix s') | _ \<Rightarrow> False)
      | Undefined e \<Rightarrow> e = SignedOverflow \<and> trace s' \<noteq> []
                   \<and> (case last (trace s') of
                         Draw buf \<Rightarrow> \<not> mismatch buf (matrix s') \<and> \<not> fits_int (matrix s')
                       | _ \<Rightarrow> False)
      | OutOfFuel \<Rightarrow> successively (follows burn) (trace s' @ [AgeCheck 0]))"

definition outer_end :: "bool \<Rightarrow> bool outcome \<Rightarrow> 'w state \<Rightarrow> bool" where
  "outer_end burn out s' =
     (case out of
        Returned v \<Rightarrow> v \<and> trace s' \<noteq> [] \<and> last (trace s') = InterruptRead True
      | Threw e \<Rightarrow> e = SizeMismatch \<and> trace s' \<noteq> []
                   \<and> (case last (trace s') of Draw buf \<Rightarrow> mismatch buf (matrix s') | _ \<Rightarrow> False)
      | Undefined e \<Rightarrow> trace s' \<noteq> []
                   \<and> (case last (trace s') of
                         Draw buf \<Rightarrow> e = SignedOverflow \<and> \<not> mismatch buf (matrix s')
                                      \<and> \<not> fits_int (matrix s')
                       | AgeDelay a \<Rightarrow> e = ConversionOutOfRange
                                      \<and> to_int64 (std_min kMaximumWait (double_mul a (Finite 1000000))) = None
                       | _ \<Rightarrow> False)
      | OutOfFuel \<Rightarrow> successively (follows burn) (trace s' @ [AgeCheck 0])
                   \<or> successively (follows burn) (trace s' @ [InterruptRead False]))"

text \<open>
  The body of the inner loop as a function of its own: one evaluation of the condition and,
  when it holds, one pass through the body. \<open>Inl\<close> is the loop's result when this pass
  leaves the loop, \<open>Inr\<close> the state in which the condition is evaluated next. \<open>wait_step\<close>
  is the rest of an iteration of the outer loop, lines 112 to 114. Lemmas \<open>draw_due_Suc\<close>
  and \<open>RunDrawLoop_with_Suc\<close> show that the loops are the iterations of these steps.
\<close>

definition draw_due_body :: "bool \<Rightarrow> 'w env \<Rightarrow> 'w state \<Rightarrow> (unit outcome \<times> 'w state) + 'w state" where
  "draw_due_body burn env s =
     (let (age, w1) = AgeOfOldestBuffer env (world s);
          s1 = emit (AgeCheck age) (s\<lparr>world := w1\<rparr>)
      in if age \<le> 0 then
           (let (buffer, w2) = PopOldestBuffer env (world s1);
                s2 = emit (Pop buffer) (s1\<lparr>world := w2\<rparr>)
            in case buffer of
                 None \<Rightarrow> Inr s2
               | Some buf \<Rightarrow>
                   (let (skip, s3) =
                          (if burn then
                             (let (age2, w3) = AgeOfOldestBuffer env (world s2)
                              in (age2 \<le> 0, emit (AgeBurn buf age2) (s2\<lparr>world := w3\<rparr>)))
                           else (False, s2))
                    in if skip then Inr s3
                       else (case DrawFrame env buf (emit (Draw buf) s3) of
                               (Inl e, s4) \<Rightarrow> Inl (failed e, s4)
                             | (Inr u, s4) \<Rightarrow> Inr s4)))
         else Inl (Returned (), s1))"

definition wait_step :: "'w env \<Rightarrow> 'w state \<Rightarrow> (error + unit) \<times> 'w state" where
  "wait_step env s2 =
     (let (age, w2) = AgeOfOldestBuffer env (world s2);
          s3 = emit (AgeDelay age) (s2\<lparr>world := w2\<rparr>)
      in case to_int64 (std_min kMaximumWait (double_mul age (Finite 1000000))) of
           None \<Rightarrow> (Inl ConversionOutOfRange, s3)
         | Some delay \<Rightarrow>
             (Inr (), if delay > 0
                      then emit (Sleep delay) (s3\<lparr>world := sleep_for env delay (world s3)\<rparr>)
                      else s3))"

text \<open>
  The frames drawn so far have the size of the surface: \<open>drawn_ok\<close>. \<open>ended_ok\<close> relates
  the states before and after a stretch of the loop: the dimensions of the surface are
  the same, and every frame drawn had the size of the surface, but for the one on which
  the loop has thrown.
\<close>

definition drawn_ok :: "event list \<Rightarrow> RGBMatrix \<Rightarrow> bool" where
  "drawn_ok t m = list_all (\<lambda>e. case e of Draw buf \<Rightarrow> \<not> mismatch buf m | _ \<Rightarrow> True) t"

definition ended_ok :: "'a outcome \<Rightarrow> 'w state \<Rightarrow> 'w state \<Rightarrow> bool" where
  "ended_ok out s s' \<longleftrightarrow>
     width (matrix s') = width (matrix s) \<and> height (matrix s') = height (matrix s)
   \<and> (case out of
        Threw e \<Rightarrow> drawn_ok (butlast (trace s')) (matrix s)
      | _ \<Rightarrow> drawn_ok (trace s') (matrix s))"

text \<open>
  What a run has put on the surface. \<open>popped\<close>, \<open>drawn\<close> and \<open>kept\<close> are the frames the
  buffer manager has handed out, those \<open>DrawFrame\<close> was called on, and those the
  discard-backlog test has let through, each in the order of the trace. \<open>rendering\<close> is
  the list of the calls of \<open>SetPixel\<close> by which \<open>DrawFrame\<close> renders a frame on a surface
  of \<open>W\<close> by \<open>H\<close> pixels: the complete transfer, and nothing for a frame of another size.
  \<open>rendered\<close> relates the states before and after a stretch of the loop: unless an index
  of \<open>DrawFrame\<close> has overflowed, the calls of \<open>SetPixel\<close> made in between are the
  renderings of the frames drawn in between, in that order.
\<close>

definition popped :: "event list \<Rightarrow> LEDBuffer list" where
  "popped t = List.map_filter (\<lambda>e. case e of Pop (Some buf) \<Rightarrow> Some buf | _ \<Rightarrow> None) t"

definition drawn :: "event list \<Rightarrow> LEDBuffer list" where
  "drawn t = List.map_filter (\<lambda>e. case e of Draw buf \<Rightarrow> Some buf | _ \<Rightarrow> None) t"

definition kept :: "event list \<Rightarrow> LEDBuffer list" where
  "kept t = List.map_filter (\<lambda>e. case e of AgeBurn buf a \<Rightarrow> if a \<le> 0 then None else Some buf | _ \<Rightarrow> None) t"

definition rendering :: "int \<Rightarrow> int \<Rightarrow> LEDBuffer \<Rightarrow> (int \<times> int \<times> rgb) list" where
  "rendering W H buffer =
     (if int (length (ColorData buffer)) \<noteq> W * H then [] else frame_calls buffer W H 0)"

definition rendered :: "'a outcome \<Rightarrow> 'w state \<Rightarrow> 'w state \<Rightarrow> bool" where
  "rendered out s s' \<longleftrightarrow>
     width (matrix s') = width (matrix s) \<and> height (matrix s') = height (matrix s)
   \<and> take (length (trace s)) (trace s') = trace s
   \<and> (out \<noteq> Undefined SignedOverflow \<longrightarrow>
        calls (matrix s') =
          calls (matrix s) @ concat (map (rendering (width (matrix s)) (height (matrix s)))
                                         (drawn (drop (length (trace s)) (trace s')))))"

subsection \<open>A scripted environment and test data\<close>

text \<open>
  An in-memory fake of the collaborators: every operation answers from its own list and
  falls back to a fixed answer when the list is used up (interrupted, nothing due,
  nothing to pop, time zero).
\<close>

record script =
  flags :: "bool list"
  ages :: "double list"
  frames :: "LEDBuffer option list"
  clock :: "double list"

definition scripted :: "script env" where
  "scripted =
     \<lparr>interrupt_received = (\<lambda>w. case flags w of [] \<Rightarrow> (True, w) | f # fs \<Rightarrow> (f, w\<lparr>flags := fs\<rparr>)),
      AgeOfOldestBuffer = (\<lambda>w. case ages w of [] \<Rightarrow> (Finite 1, w) | a # as \<Rightarrow> (a, w\<lparr>ages := as\<rparr>)),
      PopOldestBuffer = (\<lambda>w. case frames w of [] \<Rightarrow> (None, w) | f # fs \<Rightarrow> (f, w\<lparr>frames := fs\<rparr>)),
      CurrentTime = (\<lambda>w. case clock w of [] \<Rightarrow> (Finite 0, w) | t # ts \<Rightarrow> (t, w\<lparr>clock := ts\<rparr>)),
      sleep_for = (\<lambda>d w. w)\<rparr>"

definition blank_matrix :: "32 word \<Rightarrow> 32 word \<Rightarrow> RGBMatrix" where
  "blank_matrix W H = \<lparr>columns = W, rows = H, pixels = (\<lambda>p. None), calls = []\<rparr>"

text \<open>The state before the first frame: \<open>lastTime\<close> is \<open>0.0\<close>, the trace is empty.\<close>

definition initial_state :: "'w \<Rightarrow> RGBMatrix \<Rightarrow> 'w state" where
  "initial_state w m = \<lparr>world = w, lastTime = Finite 0, FPS_static = Finite 0, matrix = m, trace = []\<rparr>"

definition frame2 :: LEDBuffer where
  "frame2 = \<lparr>ColorData = [\<lparr>r = 1, g = 2, b = 3\<rparr>, \<lparr>r = 4, g = 5, b = 6\<rparr>]\<rparr>"

text \<open>A frame of 2 by 2 pixels in which every pixel holds its own coordinates \<open>(x, y)\<close>.\<close>

definition frame4 :: LEDBuffer where
  "frame4 = \<lparr>ColorData = [\<lparr>r = 0, g = 0, b = 0\<rparr>, \<lparr>r = 1, g = 0, b = 0\<rparr>,
                          \<lparr>r = 0, g = 1, b = 0\<rparr>, \<lparr>r = 1, g = 1, b = 0\<rparr>]\<rparr>"

definition square_test :: "script state" where
  "square_test = initial_state \<lparr>flags = [], ages = [], frames = [], clock = [Finite 2]\<rparr> (blank_matrix 2 2)"

definition render_test :: "script state" where
  "render_test = initial_state \<lparr>flags = [], ages = [], frames = [], clock = [Finite 2]\<rparr> (blank_matrix 2 1)"

definition mismatch_test :: "script state" where
  "mismatch_test = initial_state \<lparr>flags = [], ages = [], frames = [], clock = [Finite 2]\<rparr> (blank_matrix 2 2)"

text \<open>The same surface when the previous frame was drawn at the very time the clock shows.\<close>

definition same_time_test :: "script state" where
  "same_time_test =
     (initial_state \<lparr>flags = [], ages = [], frames = [], clock = [Finite 2]\<rparr> (blank_matrix 2 1))
       \<lparr>lastTime := Finite 2\<rparr>"

text \<open>
  A clock that has gone back by \<open>DBL_EPSILON\<close>: the previous frame was drawn at time 1,
  the clock shows \<open>1 - 2\<^sup>-\<^sup>5\<^sup>2\<close>, the double next to 1.
\<close>

definition backwards_test :: "script state" where
  "backwards_test =
     (initial_state \<lparr>flags = [], ages = [], frames = [], clock = [Finite (1 - 1 / 2 ^ 52)]\<rparr> (blank_matrix 2 1))
       \<lparr>lastTime := Finite 1\<rparr>"

text \<open>
  A surface of \<open>INT_MAX\<close> by 2 pixels and a frame of that many black pixels. The index of
  the source pixel \<open>(1, 1)\<close> is \<open>INT_MAX + 1\<close>.
\<close>

definition huge_frame :: LEDBuffer where
  "huge_frame = \<lparr>ColorData = replicate 4294967294 \<lparr>r = 0, g = 0, b = 0\<rparr>\<rparr>"

definition huge_test :: "script state" where
  "huge_test = initial_state \<lparr>flags = [], ages = [], frames = [], clock = [Finite 2]\<rparr> (blank_matrix 2147483647 2)"

text \<open>
  Runs of the loop. \<open>loop_test\<close>: an empty pop, then a frame, then the next frame due in
  1/128 s, then nothing due for a second, then the interrupt.
  \<open>burn_test\<close>: two frames due at once. \<open>throw_test\<close>: a frame of the wrong size.
  \<open>micro_test\<close>: the next frame is due in a microsecond; the age is the double nearest to
  \<open>0.000001\<close>, which is \<open>4722366482869645 / 2\<^sup>7\<^sup>2\<close>, a little less than that.
  \<open>stale_test\<close>: the age read for the delay is minus infinity.
\<close>

definition frame3 :: LEDBuffer where
  "frame3 = \<lparr>ColorData = [\<lparr>r = 7, g = 8, b = 9\<rparr>, \<lparr>r = 10, g = 11, b = 12\<rparr>]\<rparr>"

definition loop_test :: "script state" where
  "loop_test = initial_state
     \<lparr>flags = [False, False], ages = [Finite 0, Finite 0, Finite (1 / 128), Finite (1 / 128)],
      frames = [None, Some frame2], clock = [Finite 2]\<rparr>
     (blank_matrix 2 1)"

definition burn_test :: "script state" where
  "burn_test = initial_state
     \<lparr>flags = [False], ages = [Finite 0, Finite 0, Finite 0, Finite 1],
      frames = [Some frame2, Some frame3], clock = [Finite 2]\<rparr>
     (blank_matrix 2 1)"

definition throw_test :: "script state" where
  "throw_test = initial_state
     \<lparr>flags = [False], ages = [Finite 0], frames = [Some frame2], clock = [Finite 2]\<rparr>
     (blank_matrix 2 2)"

definition micro_test :: "script state" where
  "micro_test = initial_state
     \<lparr>flags = [False], ages = [Finite 1, Finite (4722366482869645 / 4722366482869645213696)], frames = [], clock = []\<rparr>
     (blank_matrix 2 1)"

definition stale_test :: "script state" where
  "stale_test = initial_state
     \<lparr>flags = [False], ages = [Finite 1, NegInf], frames = [], clock = []\<rparr>
     (blank_matrix 2 1)"


section \<open>Properties of the arithmetic\<close>

subsection \<open>Rounding\<close>

text \<open>
  \<open>ilog2\<close> is the binary exponent; a number of at least the least subnormal does not
  round to zero; the rounded magnitude is within half a unit in the last place.
\<close>


lemma ilog2_bounds:
  assumes "0 < a"
  shows "2 powi ilog2 a \<le> a \<and> a < 2 powi (ilog2 a + 1)"
proof (cases "1 \<le> a")
  case True
  then have p: "0 < \<lfloor>a\<rfloor>" by simp
  from bitlen_bounds [OF p] have b: "2 ^ nat (bitlen \<lfloor>a\<rfloor> - 1) \<le> \<lfloor>a\<rfloor>" "\<lfloor>a\<rfloor> < 2 ^ nat (bitlen \<lfloor>a\<rfloor>)"
    by simp_all
  have ge: "1 \<le> bitlen \<lfloor>a\<rfloor>" using p by (simp add: bitlen_alt_def)
  have "real_of_int (2 ^ nat (bitlen \<lfloor>a\<rfloor> - 1)) \<le> real_of_int \<lfloor>a\<rfloor>" using b(1) by linarith
  then have l: "2 ^ nat (bitlen \<lfloor>a\<rfloor> - 1) \<le> a" by (simp add: le_floor_iff)
  have "\<lfloor>a\<rfloor> + 1 \<le> 2 ^ nat (bitlen \<lfloor>a\<rfloor>)" using b(2) by simp
  then have "real_of_int (\<lfloor>a\<rfloor> + 1) \<le> real_of_int (2 ^ nat (bitlen \<lfloor>a\<rfloor>))" by linarith
  then have u: "a < 2 ^ nat (bitlen \<lfloor>a\<rfloor>)" by (simp add: floor_less_iff) linarith
  show ?thesis using True l u ge by (simp add: ilog2_def power_int_def)
next
  case False
  with assms have inv: "1 < 1 / a" by simp
  let ?n = "\<lceil>1 / a\<rceil> - 1"
  have p: "0 < ?n" using inv by (simp add: less_ceiling_iff)
  from bitlen_bounds [OF p] have b: "2 ^ nat (bitlen ?n - 1) \<le> ?n" "?n < 2 ^ nat (bitlen ?n)"
    by simp_all
  have ge: "1 \<le> bitlen ?n" using p by (simp add: bitlen_alt_def)
  have "\<lceil>1 / a\<rceil> \<le> 2 ^ nat (bitlen ?n)" using b(2) by simp
  then have "real_of_int \<lceil>1 / a\<rceil> \<le> real_of_int (2 ^ nat (bitlen ?n))" by linarith
  then have "1 / a \<le> 2 ^ nat (bitlen ?n)" by (simp add: ceiling_le_iff)
  then have l: "1 / 2 ^ nat (bitlen ?n) \<le> a" using assms by (simp add: field_simps)
  have "real_of_int (2 ^ nat (bitlen ?n - 1)) \<le> real_of_int ?n" using b(1) by linarith
  also have "\<dots> < 1 / a" by (simp add: ceiling_less_iff) linarith
  finally have "2 ^ nat (bitlen ?n - 1) < 1 / a" by simp
  then have u: "a < 1 / 2 ^ nat (bitlen ?n - 1)" using assms by (simp add: field_simps)
  have e: "nat (bitlen ?n) = Suc (nat (bitlen ?n - 1))" using ge by simp
  show ?thesis
  proof (cases "bitlen ?n = 1")
    case True
    with l u False show ?thesis by (simp add: ilog2_def power_int_def)
  next
    case F: False
    with ge have "1 < bitlen ?n" by simp
    with l u False show ?thesis
      by (simp add: ilog2_def power_int_def power_inverse inverse_eq_divide nat_diff_distrib power_one_over)
  qed
qed


lemma round_even_ge:
  assumes "of_int k \<le> x"
  shows "k \<le> round_even x"
proof -
  have "k \<le> \<lfloor>x\<rfloor>" using assms by (simp add: le_floor_iff)
  then show ?thesis by (simp add: round_even_def Let_def)
qed

lemma round_even_error: "\<bar>of_int (round_even x) - x\<bar> \<le> 1 / 2"
  by (simp add: round_even_def Let_def)

lemma quantum_le:
  assumes "2 powi (- 1074) \<le> a"
  shows "2 powi quantum a \<le> a"
proof (cases "ilog2 a - 52 \<le> - 1074")
  case True
  then have "quantum a = - 1074" by (simp add: quantum_def)
  with assms show ?thesis by simp
next
  case False
  then have q: "quantum a = ilog2 a - 52" by (simp add: quantum_def)
  have "(0::real) < 2 powi (- 1074)" by simp
  with assms have "0 < a" by linarith
  from ilog2_bounds [OF this] have "2 powi ilog2 a \<le> a" by simp
  moreover have "(2::real) powi (ilog2 a - 52) \<le> 2 powi ilog2 a"
    by (intro power_int_increasing) auto
  ultimately show ?thesis unfolding q by linarith
qed

lemma round_mag_nonneg: "0 \<le> a \<Longrightarrow> 0 \<le> round_mag a"
proof -
  assume a: "0 \<le> a"
  have "0 \<le> a / 2 powi quantum a" using a by simp
  then have "0 \<le> round_even (a / 2 powi quantum a)"
    by (intro round_even_ge) simp
  then show ?thesis by (simp add: round_mag_def)
qed

lemma round_mag_pos:
  assumes "2 powi (- 1074) \<le> a"
  shows "0 < round_mag a"
proof -
  have pos: "(0::real) < 2 powi quantum a" by simp
  have a: "0 < a" using assms quantum_le [OF assms] pos by linarith
  have "1 \<le> a / 2 powi quantum a"
    using quantum_le [OF assms] pos by (simp add: field_simps)
  then have "1 \<le> round_even (a / 2 powi quantum a)"
    by (intro round_even_ge) simp
  then have "0 < real_of_int (round_even (a / 2 powi quantum a))" by linarith
  then show ?thesis using a pos by (simp add: round_mag_def)
qed

lemma round_mag_error:
  assumes "0 < a"
  shows "\<bar>round_mag a - a\<bar> \<le> 2 powi quantum a / 2"
proof -
  let ?q = "(2::real) powi quantum a"
  have pos: "0 < ?q" by simp
  have "\<bar>of_int (round_even (a / ?q)) - a / ?q\<bar> \<le> 1 / 2" by (rule round_even_error)
  then have "\<bar>of_int (round_even (a / ?q)) - a / ?q\<bar> * ?q \<le> 1 / 2 * ?q"
    using pos by (intro mult_right_mono) auto
  moreover have "\<bar>of_int (round_even (a / ?q)) - a / ?q\<bar> * ?q = \<bar>(of_int (round_even (a / ?q)) - a / ?q) * ?q\<bar>"
    using pos by (simp add: abs_mult)
  moreover have "(of_int (round_even (a / ?q)) - a / ?q) * ?q = of_int (round_even (a / ?q)) * ?q - a"
    using pos by (simp add: left_diff_distrib)
  ultimately show ?thesis using assms by (simp add: round_mag_def)
qed


text \<open>
  A number that has a significand of at most 53 bits and an exponent of at least \<open>-1074\<close>
  is left as it is: rounding changes only what is not representable.
\<close>

lemma round_even_int: "round_even (of_int k) = k"
  by (simp add: round_even_def)

lemma ilog2_less:
  assumes "0 < a" and "a < 2 powi e"
  shows "ilog2 a < e"
proof (rule ccontr)
  assume "\<not> ilog2 a < e"
  then have "(2::real) powi e \<le> 2 powi ilog2 a"
    by (intro power_int_increasing) auto
  with ilog2_bounds [OF assms(1)] assms(2) show False by linarith
qed

lemma round_mag_representable:
  assumes "0 < m" and "m < 2 ^ 53" and "- 1074 \<le> e"
  shows "round_mag (of_int m * 2 powi e) = of_int m * 2 powi e"
proof -
  let ?a = "real_of_int m * 2 powi e"
  define q where "q = quantum ?a"
  define k where "k = nat (e - q)"
  have pos: "0 < ?a" using assms(1) by simp
  have "real_of_int m < 2 ^ 53" using assms(2) by (metis of_int_less_numeral_power_cancel_iff)
  then have "?a < 2 ^ 53 * 2 powi e" by (intro mult_strict_right_mono) auto
  also have "\<dots> = 2 powi (53 + e)" by (simp add: power_int_add)
  finally have "ilog2 ?a < 53 + e" by (intro ilog2_less pos)
  with assms(3) have "q \<le> e" by (simp add: q_def quantum_def)
  then have "e = q + int k" by (simp add: k_def)
  then have "(2::real) powi e = 2 powi (q + int k)" by simp
  also have "\<dots> = 2 powi q * 2 ^ k" by (simp add: power_int_add)
  finally have a: "?a = of_int (m * 2 ^ k) * 2 powi q" by simp
  have "of_int (m * 2 ^ k) * 2 powi q / 2 powi q = real_of_int (m * 2 ^ k)" by simp
  then have "round_even (of_int (m * 2 ^ k) * 2 powi q / 2 powi q) = m * 2 ^ k"
    by (simp only: round_even_int)
  then have r: "round_even (?a / 2 powi q) = m * 2 ^ k"
    by (simp only: a)
  have "round_mag ?a = of_int (round_even (?a / 2 powi q)) * 2 powi q"
    using pos assms(1) by (simp add: round_mag_def q_def)
  also have "\<dots> = of_int (m * 2 ^ k) * 2 powi q" by (simp only: r)
  also have "\<dots> = ?a" by (simp only: a)
  finally show ?thesis .
qed

lemma round_to_double_representable:
  assumes "0 < m" and "m < 2 ^ 53" and "- 1074 \<le> e" and "of_int m * 2 powi e < (2::real) ^ 1024"
  shows "round_to_double False (of_int m * 2 powi e) = Finite (of_int m * 2 powi e)"
    and "round_to_double True (of_int m * 2 powi e) = Finite (- (of_int m * 2 powi e))"
  using assms(1,4) round_mag_representable [OF assms(1-3)]
  by (simp_all add: round_to_double_def)

lemma round_to_double_nonneg:
  assumes "0 \<le> a"
  shows "round_to_double False a = PosInf \<or> (\<exists>v\<ge>0. round_to_double False a = Finite v)"
  using round_mag_nonneg [OF assms]
  by (simp add: round_to_double_def Let_def signed_infinity_def signed_zero_def)

lemma round_to_double_pos:
  assumes "2 powi (- 1074) \<le> a"
  shows "round_to_double False a = PosInf \<or> (\<exists>v>0. round_to_double False a = Finite v)"
  using round_mag_pos [OF assms]
  by (simp add: round_to_double_def Let_def signed_infinity_def signed_zero_def)

lemma double_sub_nonneg:
  assumes "lo \<le> hi"
  shows "double_sub hi lo = NaN \<or> double_sub hi lo = PosInf \<or> double_sub hi lo = NegZero
       \<or> (\<exists>v\<ge>0. double_sub hi lo = Finite v)"
proof (cases "(\<exists>x. hi = Finite x) \<and> (\<exists>y. lo = Finite y)")
  case True
  then obtain x y where ab: "hi = Finite x" "lo = Finite y" by blast
  with assms have le: "y \<le> x" by (simp add: less_eq_double_def double_le_def)
  show ?thesis
  proof (cases "x = y")
    case True
    then show ?thesis by (simp add: ab double_sub_def double_add_def signed_zero_def)
  next
    case False
    with le have "0 \<le> \<bar>x - y\<bar>" "\<not> x - y < 0" "x - y \<noteq> 0" by simp_all
    with round_to_double_nonneg [of "\<bar>x - y\<bar>"] show ?thesis
      by (auto simp add: ab double_sub_def double_add_def signed_zero_def)
  qed
next
  case False
  with assms round_to_double_nonneg [of "valof hi"] round_to_double_nonneg [of "- valof lo"]
  show ?thesis
    by (cases hi; cases lo)
       (auto simp add: less_eq_double_def double_le_def double_sub_def double_add_def signed_zero_def)
qed

lemma double_add_epsilon:
  assumes "d = NaN \<or> d = PosInf \<or> d = NegZero \<or> (\<exists>v\<ge>0. d = Finite v)"
  shows "\<not> is_zero (double_add d DBL_EPSILON)"
proof -
  have e: "(2::real) powi (- 1074) \<le> 1 / 2 ^ 52" by simp
  have r: "\<not> is_zero (round_to_double False \<bar>v + 1 / 2 ^ 52\<bar>)" if "0 \<le> v" for v :: real
  proof -
    have "(2::real) powi (- 1074) \<le> \<bar>v + 1 / 2 ^ 52\<bar>" using that e by linarith
    from round_to_double_pos [OF this] show ?thesis by auto
  qed
  from assms consider "d = NaN" | "d = PosInf" | "d = NegZero" | v where "0 \<le> v" "d = Finite v"
    by blast
  then show ?thesis
  proof cases
    case 3
    with r [of 0] show ?thesis by (simp add: double_add_def DBL_EPSILON_def)
  next
    case 4
    then have "\<not> v + 1 / 2 ^ 52 < 0" "v + 1 / 2 ^ 52 \<noteq> 0"
      by (simp_all add: add_nonneg_eq_0_iff)
    with r [OF 4(1)] 4 show ?thesis by (simp add: double_add_def DBL_EPSILON_def)
  qed (simp_all add: double_add_def DBL_EPSILON_def)
qed

lemma delta_not_zero:
  assumes "previous \<le> now"
  shows "\<not> is_zero (double_add (double_sub now previous) DBL_EPSILON)"
  by (rule double_add_epsilon [OF double_sub_nonneg [OF assms]])

lemma positive_delay:
  assumes "to_int64 (std_min kMaximumWait p) = Some d" and "0 < d"
  shows "\<exists>v. std_min kMaximumWait p = Finite v \<and> of_int d \<le> v \<and> v < of_int d + 1 \<and> v \<le> 10000"
proof -
  obtain v where v: "std_min kMaximumWait p = Finite v"
    using assms by (cases "std_min kMaximumWait p") (simp_all add: to_int64_def)
  have le: "v \<le> 10000"
    using v by (cases p) (auto simp: std_min_def kMaximumWait_def less_double_def double_less_def split: if_splits)
  have "0 \<le> v"
  proof (rule ccontr)
    assume "\<not> 0 \<le> v"
    then have "\<lceil>v\<rceil> \<le> 0" by (simp add: ceiling_le_iff)
    moreover from assms v \<open>\<not> 0 \<le> v\<close> have "d = \<lceil>v\<rceil>"
      by (simp add: to_int64_def Let_def split: if_splits)
    ultimately show False using assms(2) by linarith
  qed
  with assms v have "d = \<lfloor>v\<rfloor>" by (simp add: to_int64_def Let_def split: if_splits)
  then have "of_int d \<le> v \<and> v < of_int d + 1" by simp
  with v le show ?thesis by simp
qed


section \<open>Properties of DrawFrame\<close>

subsection \<open>The dimensions of the surface\<close>

lemma width_update [simp]:
  "width (m\<lparr>pixels := p\<rparr>) = width m" "width (m\<lparr>calls := c\<rparr>) = width m"
  by (simp_all add: width_def)

lemma height_update [simp]:
  "height (m\<lparr>pixels := p\<rparr>) = height m" "height (m\<lparr>calls := c\<rparr>) = height m"
  by (simp_all add: height_def)

lemma width_range: "INT_MIN \<le> width m \<and> width m \<le> INT_MAX"
  using sint_ge [of "columns m"] sint_lt [of "columns m"]
  by (simp add: width_def INT_MIN_def INT_MAX_def)

lemma height_range: "INT_MIN \<le> height m \<and> height m \<le> INT_MAX"
  using sint_ge [of "rows m"] sint_lt [of "rows m"]
  by (simp add: height_def INT_MIN_def INT_MAX_def)

text \<open>
  The arithmetic of the loop headers and of the destination column stays in the range of
  \<open>int\<close>: a counter is incremented only when it is below a dimension, and the column is
  computed only for \<open>x\<close> below the width.
\<close>

lemma loop_counters_in_range:
  assumes "0 \<le> x" and "x < width m" and "0 \<le> y" and "y < height m"
  shows "INT_MIN \<le> x + 1 \<and> x + 1 \<le> INT_MAX" and "INT_MIN \<le> y + 1 \<and> y + 1 \<le> INT_MAX"
    and "INT_MIN \<le> width m - 1 \<and> width m - 1 \<le> INT_MAX"
    and "INT_MIN \<le> width m - 1 - x \<and> width m - 1 - x \<le> INT_MAX"
  using assms width_range [of m] height_range [of m]
  by (simp_all add: INT_MIN_def INT_MAX_def)

subsection \<open>The pixel loops\<close>

lemma index_in_bounds:
  fixes x y W H :: int
  assumes "0 \<le> x" "x < W" "0 \<le> y" "y < H"
  shows "0 \<le> y * W + x \<and> y * W + x < W * H"
proof -
  have "y * W \<le> (H - 1) * W" using assms by (intro mult_right_mono) auto
  then have "y * W + x < (H - 1) * W + W" using assms by linarith
  also have "\<dots> = W * H" by (simp add: algebra_simps)
  finally show ?thesis using assms by simp
qed

text \<open>
  On a surface of at most \<open>2\<^sup>3\<^sup>1\<close> pixels the product and the sum of the index computation
  are in the range of \<open>int\<close>.
\<close>

lemma index_fits:
  fixes x y W H :: int
  assumes "0 \<le> x" "x < W" "0 \<le> y" "y < H" "W * H \<le> 2 ^ 31"
  shows "int_mul y W = Inr (y * W)" and "int_add (y * W) x = Inr (y * W + x)"
proof -
  have ib: "0 \<le> y * W + x \<and> y * W + x < W * H"
    using assms by (intro index_in_bounds) auto
  have nn: "0 \<le> y * W" using assms by simp
  have "INT_MIN \<le> y * W" "y * W \<le> INT_MAX" "INT_MIN \<le> y * W + x" "y * W + x \<le> INT_MAX"
    using nn ib assms unfolding INT_MIN_def INT_MAX_def by linarith+
  then show "int_mul y W = Inr (y * W)" and "int_add (y * W) x = Inr (y * W + x)"
    by (simp_all add: int_mul_def int_add_def)
qed

lemma int_mul_cases:
  "int_mul a c = Inr (a * c) \<or> int_mul a c = Inl SignedOverflow"
  by (simp add: int_mul_def)

lemma int_add_cases:
  "int_add a c = Inr (a + c) \<or> int_add a c = Inl SignedOverflow"
  by (simp add: int_add_def)

text \<open>
  The product of the size check, computed in an \<open>n\<close>-bit \<open>size_t\<close>, is the product of the
  integers for the dimensions of a surface.
\<close>

lemma size_t_product:
  fixes W H :: int
  assumes "0 \<le> W" "0 \<le> H" "W * H < 2 ^ n"
  shows "((W mod 2 ^ n) * (H mod 2 ^ n)) mod 2 ^ n = W * H"
proof (cases "W = 0 \<or> H = 0")
  case True
  then show ?thesis by auto
next
  case False
  with assms have pos: "1 \<le> W" "1 \<le> H" by auto
  have "W * 1 \<le> W * H" using pos assms by (intro mult_left_mono) auto
  then have w: "W < 2 ^ n" using assms(3) by simp
  have "1 * H \<le> W * H" using pos assms by (intro mult_right_mono) auto
  then have h: "H < 2 ^ n" using assms(3) by simp
  have "0 \<le> W * H" using assms by simp
  with w h assms show ?thesis by simp
qed

lemma y_loop_height: "height (snd (DrawFrame_y_loop buffer x y m)) = height m"
  by (induction buffer x y m rule: DrawFrame_y_loop.induct)
     (subst DrawFrame_y_loop.simps, auto simp: SetPixel_def split: sum.splits)

text \<open>
  The inner loop on a frame of the size of the surface, for a column of the surface:
  either it returns, and has then made the calls of the rows from \<open>y\<close> on, in order; or
  an index has overflowed, which happens only on a surface of more than \<open>2\<^sup>3\<^sup>1\<close> pixels.
  No read leaves the colour data.
\<close>

lemma y_loop_spec:
  assumes "int (length (ColorData buffer)) = width m * height m" "0 \<le> x" "x < width m" "0 \<le> y"
  shows "case DrawFrame_y_loop buffer x y m of
           (Inr u, m') \<Rightarrow>
              calls m' = calls m @ map (\<lambda>y'. (width m - 1 - x, y', pixel_of buffer (y' * width m + x))) [y..height m - 1]
            \<and> (\<forall>dx dy. pixels m' (dx, dy) =
                 (if dx = width m - 1 - x \<and> y \<le> dy \<and> dy < height m
                  then Some (pixel_of buffer (dy * width m + x))
                  else pixels m (dx, dy)))
         | (Inl e, m') \<Rightarrow> e = SignedOverflow \<and> \<not> fits_int m"
  using assms
proof (induction buffer x y m rule: DrawFrame_y_loop.induct)
  case (1 buffer x y m)
  let ?W = "width m" and ?H = "height m"
  show ?case
  proof (cases "y < ?H")
    case False
    then show ?thesis by (subst DrawFrame_y_loop.simps) auto
  next
    case True
    let ?i = "y * ?W + x"
    let ?m = "SetPixel (?W - 1 - x) y (r (ColorData buffer ! nat ?i)) (g (ColorData buffer ! nat ?i))
                (b (ColorData buffer ! nat ?i)) m"
    have ib: "0 \<le> ?i \<and> ?i < ?W * ?H"
      using index_in_bounds [of x ?W y ?H] 1 True by simp
    then have rd: "ColorData_at buffer ?i = Inr (ColorData buffer ! nat ?i)"
      using 1 by (simp add: ColorData_at_def)
    have fits: "int_mul y ?W = Inr (y * ?W) \<and> int_add (y * ?W) x = Inr ?i" if "fits_int m"
      using index_fits [of x ?W y ?H] 1 True that by (simp add: fits_int_def)
    show ?thesis
    proof (cases "int_mul y ?W = Inr (y * ?W) \<and> int_add (y * ?W) x = Inr ?i")
      case False
      with fits have nf: "\<not> fits_int m" by blast
      from False int_mul_cases [of y ?W] int_add_cases [of "y * ?W" x]
      have "fst (DrawFrame_y_loop buffer x y m) = Inl SignedOverflow"
        using True by (subst DrawFrame_y_loop.simps) auto
      with nf show ?thesis by (auto split: prod.splits sum.splits)
    next
      case ok: True
      have step: "DrawFrame_y_loop buffer x y m = DrawFrame_y_loop buffer x (y + 1) ?m"
        using True ok rd by (subst DrawFrame_y_loop.simps) simp
      have dims: "width ?m = ?W" "height ?m = ?H" by (simp_all add: SetPixel_def)
      have IH: "case DrawFrame_y_loop buffer x (y + 1) ?m of
           (Inr u, m') \<Rightarrow>
              calls m' = calls ?m @ map (\<lambda>y'. (width ?m - 1 - x, y', pixel_of buffer (y' * width ?m + x))) [y + 1..height ?m - 1]
            \<and> (\<forall>dx dy. pixels m' (dx, dy) =
                 (if dx = width ?m - 1 - x \<and> y + 1 \<le> dy \<and> dy < height ?m
                  then Some (pixel_of buffer (dy * width ?m + x))
                  else pixels ?m (dx, dy)))
         | (Inl e, m') \<Rightarrow> e = SignedOverflow \<and> \<not> fits_int ?m"
        using True ok rd 1(2-5) by (intro "1.IH") (auto simp: dims)
      have up: "[y..?H - 1] = y # [y + 1..?H - 1]"
        using True by (simp add: upto_rec1)
      have c: "calls ?m = calls m @ [(?W - 1 - x, y, pixel_of buffer ?i)]"
        by (simp add: SetPixel_def pixel_of_def rgb_of_def)
      have p: "pixels ?m (dx, dy) = (if dx = ?W - 1 - x \<and> dy = y then Some (pixel_of buffer ?i) else pixels m (dx, dy))"
        for dx dy
        by (simp add: SetPixel_def pixel_of_def rgb_of_def)
      have f: "fits_int ?m = fits_int m" by (simp add: fits_int_def dims)
      show ?thesis
        unfolding step using IH True
        by (auto simp: dims up c p f split: prod.splits sum.splits)
    qed
  qed
qed

lemma x_loop_width: "width (snd (DrawFrame_x_loop buffer x m)) = width m"
proof (induction buffer x m rule: DrawFrame_x_loop.induct)
  case (1 buffer x m)
  show ?case
  proof (cases "DrawFrame_y_loop buffer x 0 m")
    case (Pair res m')
    then have "width m' = width m" by (rule DrawFrame_y_loop_width_eq)
    with Pair 1 show ?thesis
      by (subst DrawFrame_x_loop.simps) (auto split: sum.splits)
  qed
qed

lemma x_loop_height: "height (snd (DrawFrame_x_loop buffer x m)) = height m"
proof (induction buffer x m rule: DrawFrame_x_loop.induct)
  case (1 buffer x m)
  show ?case
  proof (cases "DrawFrame_y_loop buffer x 0 m")
    case (Pair res m')
    then have "height m' = height m" using y_loop_height [of buffer x 0 m] by simp
    with Pair 1 show ?thesis
      by (subst DrawFrame_x_loop.simps) (auto split: sum.splits)
  qed
qed

lemma frame_calls_step:
  "x < W \<Longrightarrow> frame_calls buffer W H x =
     map (\<lambda>y. (W - 1 - x, y, pixel_of buffer (y * W + x))) [0..H - 1] @ frame_calls buffer W H (x + 1)"
  by (simp add: frame_calls_def upto_rec1 [of x "W - 1"] comp_def)

lemma frame_calls_done: "\<not> x < W \<Longrightarrow> frame_calls buffer W H x = []"
  by (simp add: frame_calls_def)

text \<open>The outer loop, likewise, from column \<open>x\<close> on.\<close>

lemma x_loop_spec:
  assumes "int (length (ColorData buffer)) = width m * height m" "0 \<le> x"
  shows "case DrawFrame_x_loop buffer x m of
           (Inr u, m') \<Rightarrow>
              calls m' = calls m @ frame_calls buffer (width m) (height m) x
            \<and> (\<forall>dx dy. pixels m' (dx, dy) =
                 (if 0 \<le> dx \<and> dx \<le> width m - 1 - x \<and> 0 \<le> dy \<and> dy < height m
                  then Some (pixel_of buffer (dy * width m + (width m - 1 - dx)))
                  else pixels m (dx, dy)))
         | (Inl e, m') \<Rightarrow> e = SignedOverflow \<and> \<not> fits_int m"
  using assms
proof (induction buffer x m rule: DrawFrame_x_loop.induct)
  case (1 buffer x m)
  show ?case
  proof (cases "x < width m")
    case False
    then show ?thesis
      by (subst DrawFrame_x_loop.simps) (auto simp: frame_calls_done)
  next
    case True
    obtain res m' where y: "DrawFrame_y_loop buffer x 0 m = (res, m')"
      by (cases "DrawFrame_y_loop buffer x 0 m")
    note ys = y_loop_spec [of buffer m x 0, unfolded y, simplified]
    show ?thesis
    proof (cases res)
      case (Inl e)
      have "DrawFrame_x_loop buffer x m = (Inl e, m')"
        using True y Inl by (subst DrawFrame_x_loop.simps) simp
      with ys Inl 1(2,3) True show ?thesis by simp
    next
      case (Inr u)
      have w: "width m' = width m" using y by (rule DrawFrame_y_loop_width_eq)
      have h: "height m' = height m" using y_loop_height [of buffer x 0 m] y by simp
      have c: "calls m' = calls m @ map (\<lambda>y. (width m - 1 - x, y, pixel_of buffer (y * width m + x))) [0..height m - 1]"
        using ys Inr 1(2,3) True by simp
      have p: "pixels m' (dx, dy) =
           (if dx = width m - 1 - x \<and> 0 \<le> dy \<and> dy < height m
            then Some (pixel_of buffer (dy * width m + x))
            else pixels m (dx, dy))" for dx dy
        using ys Inr 1(2,3) True by simp
      have IH: "case DrawFrame_x_loop buffer (x + 1) m' of
           (Inr u, m'') \<Rightarrow>
              calls m'' = calls m' @ frame_calls buffer (width m') (height m') (x + 1)
            \<and> (\<forall>dx dy. pixels m'' (dx, dy) =
                 (if 0 \<le> dx \<and> dx \<le> width m' - 1 - (x + 1) \<and> 0 \<le> dy \<and> dy < height m'
                  then Some (pixel_of buffer (dy * width m' + (width m' - 1 - dx)))
                  else pixels m' (dx, dy)))
         | (Inl e, m'') \<Rightarrow> e = SignedOverflow \<and> \<not> fits_int m'"
        using 1 True y Inr w h by (intro "1.IH") auto
      have unf: "DrawFrame_x_loop buffer x m = DrawFrame_x_loop buffer (x + 1) m'"
        using True y Inr by (subst DrawFrame_x_loop.simps) simp
      have f: "fits_int m' = fits_int m" by (simp add: fits_int_def w h)
      show ?thesis
        unfolding unf using IH w h c p f 1(3) True frame_calls_step [OF True, of buffer "height m"]
        by (auto split: prod.splits sum.splits)
    qed
  qed
qed

lemma x_loop_ok:
  assumes "int (length (ColorData buffer)) = width m * height m" "0 \<le> x" "fits_int m"
  shows "fst (DrawFrame_x_loop buffer x m) = Inr ()
       \<and> calls (snd (DrawFrame_x_loop buffer x m)) = calls m @ frame_calls buffer (width m) (height m) x
       \<and> (\<forall>dx dy. pixels (snd (DrawFrame_x_loop buffer x m)) (dx, dy) =
           (if 0 \<le> dx \<and> dx \<le> width m - 1 - x \<and> 0 \<le> dy \<and> dy < height m
            then Some (pixel_of buffer (dy * width m + (width m - 1 - dx)))
            else pixels m (dx, dy)))"
  using x_loop_spec [OF assms(1,2)] assms(3)
  by (auto split: prod.splits sum.splits)

lemma coords_frame_calls:
  "map coords (frame_calls buffer W H 0) = map (\<lambda>(x, y). (W - 1 - x, y)) (List.product [0..W - 1] [0..H - 1])"
  by (simp add: frame_calls_def coords_def comp_def case_prod_unfold)

lemma distinct_frame_calls: "distinct (map coords (frame_calls buffer W H 0))"
  unfolding coords_frame_calls
  by (rule iffD2 [OF distinct_map]) (auto simp: distinct_product inj_on_def)

lemma set_frame_calls: "set (map coords (frame_calls buffer W H 0)) = {0..<W} \<times> {0..<H}"
proof -
  have "(\<lambda>(x, y). (W - 1 - x, y)) ` ({0..W - 1} \<times> {0..H - 1}) = {0..<W} \<times> {0..<H}"
  proof (intro set_eqI iffI)
    fix p assume "p \<in> {0..<W} \<times> {0..<H}"
    then obtain dx dy where p: "p = (dx, dy)" "0 \<le> dx" "dx < W" "0 \<le> dy" "dy < H" by auto
    then have "(W - 1 - dx, dy) \<in> {0..W - 1} \<times> {0..H - 1}" by auto
    moreover have "p = (\<lambda>(x, y). (W - 1 - x, y)) (W - 1 - dx, dy)" using p by simp
    ultimately show "p \<in> (\<lambda>(x, y). (W - 1 - x, y)) ` ({0..W - 1} \<times> {0..H - 1})" by (rule rev_image_eqI)
  qed auto
  then show ?thesis unfolding coords_frame_calls by simp
qed

subsection \<open>DrawFrame as a whole\<close>

lemma DrawFrame_statics:
  "lastTime (snd (DrawFrame env buffer s)) = fst (CurrentTime env (world s))"
  "FPS (snd (DrawFrame env buffer s)) =
     double_div (Finite 1) (double_add (double_sub (fst (CurrentTime env (world s))) (lastTime s)) DBL_EPSILON)"
  by (simp_all add: DrawFrame_def Let_def case_prod_unfold FPS_def)

lemma DrawFrame_unfold:
  "DrawFrame env buffer s =
     (if int (length (ColorData buffer)) \<noteq> width (matrix s) * height (matrix s) then Inl SizeMismatch
      else fst (DrawFrame_x_loop buffer 0 (matrix s)),
      s\<lparr>world := snd (CurrentTime env (world s)), lastTime := fst (CurrentTime env (world s)),
        FPS_static := double_div (Finite 1)
          (double_add (double_sub (fst (CurrentTime env (world s))) (lastTime s)) DBL_EPSILON),
        matrix := (if int (length (ColorData buffer)) \<noteq> width (matrix s) * height (matrix s) then matrix s
                   else snd (DrawFrame_x_loop buffer 0 (matrix s)))\<rparr>)"
  by (simp add: DrawFrame_def Let_def case_prod_unfold)

lemma DrawFrame_ok:
  assumes "int (length (ColorData buffer)) = width (matrix s) * height (matrix s)"
    and "fits_int (matrix s)"
  shows "fst (DrawFrame env buffer s) = Inr ()"
    and "calls (matrix (snd (DrawFrame env buffer s))) =
           calls (matrix s) @ frame_calls buffer (width (matrix s)) (height (matrix s)) 0"
    and "pixels (matrix (snd (DrawFrame env buffer s))) (dx, dy) =
           (if 0 \<le> dx \<and> dx < width (matrix s) \<and> 0 \<le> dy \<and> dy < height (matrix s)
            then Some (pixel_of buffer (dy * width (matrix s) + (width (matrix s) - 1 - dx)))
            else pixels (matrix s) (dx, dy))"
proof -
  note ok = x_loop_ok [OF assms(1) _ assms(2), of 0, simplified]
  show "fst (DrawFrame env buffer s) = Inr ()" using ok assms(1) by (simp add: DrawFrame_unfold)
  show "calls (matrix (snd (DrawFrame env buffer s))) =
           calls (matrix s) @ frame_calls buffer (width (matrix s)) (height (matrix s)) 0"
    using ok assms(1) by (simp add: DrawFrame_unfold)
  show "pixels (matrix (snd (DrawFrame env buffer s))) (dx, dy) =
           (if 0 \<le> dx \<and> dx < width (matrix s) \<and> 0 \<le> dy \<and> dy < height (matrix s)
            then Some (pixel_of buffer (dy * width (matrix s) + (width (matrix s) - 1 - dx)))
            else pixels (matrix s) (dx, dy))"
    using ok assms(1) by (auto simp add: DrawFrame_unfold)
qed

text \<open>
  The three ways a call of \<open>DrawFrame\<close> ends: it returns, having made the calls of a
  complete transfer of a frame of the right size; it throws, for a frame of another
  size, before any call of \<open>SetPixel\<close>; or an index overflows, on a frame of the right
  size and a surface of more than \<open>2\<^sup>3\<^sup>1\<close> pixels.
\<close>

lemma DrawFrame_cases:
  "(case fst (DrawFrame env buffer s) of
      Inr u \<Rightarrow> \<not> mismatch buffer (matrix s)
              \<and> calls (matrix (snd (DrawFrame env buffer s))) =
                  calls (matrix s) @ frame_calls buffer (width (matrix s)) (height (matrix s)) 0
    | Inl e \<Rightarrow> (if mismatch buffer (matrix s)
                then e = SizeMismatch \<and> matrix (snd (DrawFrame env buffer s)) = matrix s
                else e = SignedOverflow \<and> \<not> fits_int (matrix s)))"
proof (cases "mismatch buffer (matrix s)")
  case True
  then show ?thesis by (simp add: DrawFrame_unfold mismatch_def)
next
  case False
  then have l: "int (length (ColorData buffer)) = width (matrix s) * height (matrix s)"
    by (simp add: mismatch_def)
  from x_loop_spec [OF l, of 0] False l show ?thesis
    by (auto simp: DrawFrame_unfold split: prod.splits sum.splits)
qed


subsection \<open>The test data\<close>

text \<open>The definitions by which \<open>simp\<close> computes with doubles on given numbers.\<close>

lemmas double_eval = ilog2_def round_even_def quantum_def round_mag_def signed_infinity_def
  signed_zero_def round_to_double_def double_add_def double_sub_def double_mul_def double_div_def
  double_less_def double_le_def zero_double_def less_eq_double_def less_double_def std_min_def
  to_int64_def DBL_EPSILON_def kMaximumWait_def Let_def compute_bitlen

lemma blank_matrix_simps:
  "width (blank_matrix W H) = sint W" "height (blank_matrix W H) = sint H"
  "calls (blank_matrix W H) = []" "pixels (blank_matrix W H) p = None"
  by (simp_all add: blank_matrix_def width_def height_def)

lemma mismatch_test_simps:
  "lastTime mismatch_test = Finite 0" "matrix mismatch_test = blank_matrix 2 2"
  "fst (CurrentTime scripted (world mismatch_test)) = Finite 2" "FPS mismatch_test = Finite 0"
  by (simp_all add: mismatch_test_def initial_state_def scripted_def FPS_def)

lemma render_test_simps:
  "lastTime render_test = Finite 0" "matrix render_test = blank_matrix 2 1"
  "fst (CurrentTime scripted (world render_test)) = Finite 2" "FPS render_test = Finite 0"
  by (simp_all add: render_test_def initial_state_def scripted_def FPS_def)

lemma same_time_test_simps:
  "lastTime same_time_test = Finite 2" "fst (CurrentTime scripted (world same_time_test)) = Finite 2"
  by (simp_all add: same_time_test_def initial_state_def scripted_def)

lemma backwards_test_simps:
  "lastTime backwards_test = Finite 1"
  "fst (CurrentTime scripted (world backwards_test)) = Finite (1 - 1 / 2 ^ 52)"
  by (simp_all add: backwards_test_def initial_state_def scripted_def)

lemma frame2_length: "length (ColorData frame2) = 2"
  by (simp add: frame2_def)

lemma square_test_simps:
  "matrix square_test = blank_matrix 2 2" "length (ColorData frame4) = 4"
  by (simp_all add: square_test_def initial_state_def frame4_def)

lemma huge_test_simps:
  "matrix huge_test = blank_matrix 2147483647 2" "length (ColorData huge_frame) = 4294967294"
  "width (blank_matrix 2147483647 2) = 2147483647" "height (blank_matrix 2147483647 2) = 2"
  by (simp_all add: huge_test_def initial_state_def huge_frame_def blank_matrix_simps)

text \<open>The timing arithmetic of the test data.\<close>

lemma delta_simps:
  "double_add (double_sub (Finite 2) (Finite 0)) DBL_EPSILON = Finite 2"
  "double_add (double_sub (Finite 2) (Finite 2)) DBL_EPSILON = Finite (1 / 2 ^ 52)"
  "double_add (double_sub (Finite (1 - 1 / 2 ^ 52)) (Finite 1)) DBL_EPSILON = Finite 0"
  "double_div (Finite 1) (Finite 2) = Finite (1 / 2)"
  "double_div (Finite 1) (Finite (1 / 2 ^ 52)) = Finite (2 ^ 52)"
  "double_div (Finite 1) (Finite 0) = PosInf"
  "double_add (double_sub (Finite (4503599627370495 / 4503599627370496)) (Finite 1)) DBL_EPSILON = Finite 0"
  "double_div (Finite 1) (Finite (1 / 4503599627370496)) = Finite 4503599627370496"
  by (simp_all add: double_eval)

text \<open>
  The loops of \<open>DrawFrame\<close>, run on the 2 by 2 frame: column 0 first, rows in order, each
  pixel to the mirrored column.
\<close>

lemmas DrawFrame_eval = DrawFrame_unfold DrawFrame_x_loop.simps DrawFrame_y_loop.simps
  int_mul_def int_add_def INT_MIN_def INT_MAX_def ColorData_at_def SetPixel_def
  width_def height_def blank_matrix_def scripted_def initial_state_def

lemma square_test_run:
  "fst (DrawFrame scripted frame4 square_test) = Inr ()"
  "calls (matrix (snd (DrawFrame scripted frame4 square_test))) =
     [(1, 0, (0, 0, 0)), (1, 1, (0, 1, 0)), (0, 0, (1, 0, 0)), (0, 1, (1, 1, 0))]"
  by (simp_all add: DrawFrame_eval square_test_def frame4_def)

text \<open>
  On the surface of \<open>INT_MAX\<close> by 2 pixels the loops make three calls; the index of the
  fourth read, \<open>1 * INT_MAX + 1\<close>, is not an \<open>int\<close>.
\<close>

lemma huge_test_run:
  "fst (DrawFrame scripted huge_frame huge_test) = Inl SignedOverflow"
  "calls (matrix (snd (DrawFrame scripted huge_frame huge_test))) =
     [(2147483646, 0, (0, 0, 0)), (2147483646, 1, (0, 0, 0)), (2147483645, 0, (0, 0, 0))]"
  "pixels (matrix (snd (DrawFrame scripted huge_frame huge_test))) (2147483645, 1) = None"
  by (simp_all add: DrawFrame_eval huge_test_def huge_frame_def)


subsection \<open>The claims about DrawFrame\<close>

text \<open>
  Claim C1, as stated, fails: the index \<open>y * W + x\<close> is an \<open>int\<close>, and on a surface of more
  than \<open>2\<^sup>3\<^sup>1\<close> pixels it overflows. On the surface of \<open>INT_MAX\<close> by 2 pixels, with a frame
  of that many pixels, the index of the source pixel \<open>(1, 1)\<close> is \<open>INT_MAX + 1\<close>:
  \<open>DrawFrame\<close> has undefined behaviour there, after three calls of \<open>SetPixel\<close>, and the
  destination \<open>(W - 2, 1)\<close> of that pixel is never written.
\<close>

theorem DrawFrame_mirrors_counterexample:
  "int (length (ColorData huge_frame)) = width (matrix huge_test) * height (matrix huge_test)
   \<and> 1 < width (matrix huge_test) \<and> 1 < height (matrix huge_test)
   \<and> int_add (1 * width (matrix huge_test)) 1 = Inl SignedOverflow
   \<and> fst (DrawFrame scripted huge_frame huge_test) = Inl SignedOverflow
   \<and> length (calls_made (matrix huge_test) (matrix (snd (DrawFrame scripted huge_frame huge_test)))) = 3
   \<and> pixels (matrix (snd (DrawFrame scripted huge_frame huge_test)))
        (width (matrix huge_test) - 1 - 1, 1) = None"
  by (simp add: huge_test_simps huge_test_run calls_made_def blank_matrix_simps
      int_add_def INT_MIN_def INT_MAX_def)

text \<open>
  Claim C1, amended. On a surface of at most \<open>2\<^sup>3\<^sup>1\<close> pixels, for a frame whose pixel count
  is the surface's width \<open>W\<close> times its height \<open>H\<close>, and for every \<open>x\<close> in \<open>[0, W)\<close> and \<open>y\<close>
  in \<open>[0, H)\<close>: \<open>DrawFrame\<close> returns normally, the index \<open>y * W + x\<close> is formed without
  overflow, the read of the source pixel at that index succeeds, \<open>DrawFrame\<close> calls
  \<open>SetPixel\<close> with that pixel's colour at \<open>(W - 1 - x, y)\<close>, and the surface holds that
  colour there when \<open>DrawFrame\<close> returns: the image is mirrored horizontally.
\<close>

theorem DrawFrame_mirrors:
  assumes "int (length (ColorData buffer)) = width (matrix s) * height (matrix s)"
    and "width (matrix s) * height (matrix s) \<le> 2 ^ 31"
    and "0 \<le> x" and "x < width (matrix s)" and "0 \<le> y" and "y < height (matrix s)"
  shows "fst (DrawFrame env buffer s) = Inr ()
       \<and> int_mul y (width (matrix s)) = Inr (y * width (matrix s))
       \<and> int_add (y * width (matrix s)) x = Inr (y * width (matrix s) + x)
       \<and> (\<exists>color. ColorData_at buffer (y * width (matrix s) + x) = Inr color
           \<and> (width (matrix s) - 1 - x, y, (r color, g color, b color))
                \<in> set (calls_made (matrix s) (matrix (snd (DrawFrame env buffer s))))
           \<and> pixels (matrix (snd (DrawFrame env buffer s))) (width (matrix s) - 1 - x, y)
                = Some (r color, g color, b color))"
proof -
  let ?W = "width (matrix s)" and ?H = "height (matrix s)"
  let ?i = "y * ?W + x"
  have f: "fits_int (matrix s)" using assms(2) by (simp add: fits_int_def)
  have ib: "0 \<le> ?i \<and> ?i < ?W * ?H"
    using assms by (intro index_in_bounds) auto
  then have rd: "ColorData_at buffer ?i = Inr (ColorData buffer ! nat ?i)"
    using assms(1) by (simp add: ColorData_at_def)
  have "(x, y) \<in> set (List.product [0..?W - 1] [0..?H - 1])"
    using assms by simp
  then have "(\<lambda>(x, y). (?W - 1 - x, y, pixel_of buffer (y * ?W + x))) (x, y) \<in> set (frame_calls buffer ?W ?H 0)"
    unfolding frame_calls_def set_map by (rule imageI)
  then have mem: "(?W - 1 - x, y, pixel_of buffer ?i) \<in> set (calls_made (matrix s) (matrix (snd (DrawFrame env buffer s))))"
    by (simp add: calls_made_def DrawFrame_ok(2) [OF assms(1) f])
  have px: "pixels (matrix (snd (DrawFrame env buffer s))) (?W - 1 - x, y) = Some (pixel_of buffer ?i)"
    using assms by (simp add: DrawFrame_ok(3) [OF assms(1) f])
  show ?thesis
    using rd mem px DrawFrame_ok(1) [OF assms(1) f, of env]
      index_fits [OF assms(3,4,5,6,2)]
    by (simp add: pixel_of_def rgb_of_def)
qed

theorem DrawFrame_mirrors_witness:
  "int (length (ColorData frame4)) = width (matrix square_test) * height (matrix square_test)
   \<and> width (matrix square_test) * height (matrix square_test) \<le> 2 ^ 31
   \<and> fst (DrawFrame scripted frame4 square_test) = Inr ()
   \<and> ColorData_at frame4 (1 * 2 + 1) = Inr \<lparr>r = 1, g = 1, b = 0\<rparr>
   \<and> (0, 1, (1, 1, 0)) \<in> set (calls_made (matrix square_test) (matrix (snd (DrawFrame scripted frame4 square_test))))
   \<and> pixels (matrix (snd (DrawFrame scripted frame4 square_test))) (0, 1) = Some (1, 1, 0)"
  using DrawFrame_mirrors [of frame4 square_test 1 1 scripted]
  by (simp add: square_test_simps blank_matrix_simps ColorData_at_def) (simp add: frame4_def)

text \<open>
  Claim C2. For a frame whose pixel count differs from the surface's width times its
  height, \<open>DrawFrame\<close> throws the size-mismatch error and the surface is what it was: no
  pixel is written and no call of \<open>SetPixel\<close> is made.
\<close>

theorem DrawFrame_size_mismatch:
  assumes "int (length (ColorData buffer)) \<noteq> width (matrix s) * height (matrix s)"
  shows "fst (DrawFrame env buffer s) = Inl SizeMismatch
       \<and> matrix (snd (DrawFrame env buffer s)) = matrix s"
  using assms by (simp add: DrawFrame_def Let_def case_prod_unfold)

theorem DrawFrame_size_mismatch_witness:
  "int (length (ColorData frame2)) \<noteq> width (matrix mismatch_test) * height (matrix mismatch_test)
   \<and> fst (DrawFrame scripted frame2 mismatch_test) = Inl SizeMismatch
   \<and> matrix (snd (DrawFrame scripted frame2 mismatch_test)) = blank_matrix 2 2"
  using DrawFrame_size_mismatch [of frame2 mismatch_test scripted]
  by (simp add: mismatch_test_simps blank_matrix_simps frame2_length)

text \<open>
  Claim C3, as stated, fails: \<open>DrawFrame\<close> writes \<open>lastTime\<close> and \<open>_FPS\<close> before it compares
  the sizes. On a 2 by 2 surface a frame of two pixels is refused, and the call has moved
  \<open>lastTime\<close> from 0 to 2 and the frame rate from 0 to 0.5 (the divisor \<open>2 + DBL_EPSILON\<close>
  rounds to 2).
\<close>

theorem DrawFrame_not_atomic_counterexample:
  "fst (DrawFrame scripted frame2 mismatch_test) = Inl SizeMismatch
   \<and> lastTime mismatch_test = Finite 0
   \<and> lastTime (snd (DrawFrame scripted frame2 mismatch_test)) = Finite 2
   \<and> FPS mismatch_test = Finite 0
   \<and> FPS (snd (DrawFrame scripted frame2 mismatch_test)) = Finite (1 / 2)"
  by (simp add: DrawFrame_statics mismatch_test_simps delta_simps)
     (simp add: DrawFrame_unfold mismatch_test_simps blank_matrix_simps frame2_length)

text \<open>
  Claim C3, amended. Every call of \<open>DrawFrame\<close> sets \<open>lastTime\<close> to the current time and
  \<open>_FPS\<close> to the reciprocal of the interval, whether it fails or not. With respect to the
  surface, and on a surface of at most \<open>2\<^sup>3\<^sup>1\<close> pixels, the call is all or nothing: when
  the sizes agree it returns normally and has made exactly the calls of a complete
  transfer, whose destinations are all the coordinates of the surface; when they differ
  it throws the size-mismatch error and the surface is unchanged. (On a larger surface a
  frame of the right size leaves the surface partly written, as in the counterexample to
  claim C1.)
\<close>

theorem DrawFrame_all_or_nothing:
  "(let now = fst (CurrentTime env (world s)); s' = snd (DrawFrame env buffer s)
    in lastTime s' = now
     \<and> FPS s' = double_div (Finite 1) (double_add (double_sub now (lastTime s)) DBL_EPSILON)
     \<and> (if int (length (ColorData buffer)) = width (matrix s) * height (matrix s)
        then width (matrix s) * height (matrix s) \<le> 2 ^ 31 \<longrightarrow>
             fst (DrawFrame env buffer s) = Inr ()
           \<and> calls_made (matrix s) (matrix s') = frame_calls buffer (width (matrix s)) (height (matrix s)) 0
           \<and> set (map coords (calls_made (matrix s) (matrix s'))) = {0..<width (matrix s)} \<times> {0..<height (matrix s)}
        else fst (DrawFrame env buffer s) = Inl SizeMismatch \<and> matrix s' = matrix s))"
proof (cases "int (length (ColorData buffer)) = width (matrix s) * height (matrix s)")
  case True
  have "fst (DrawFrame env buffer s) = Inr ()
      \<and> calls_made (matrix s) (matrix (snd (DrawFrame env buffer s))) =
          frame_calls buffer (width (matrix s)) (height (matrix s)) 0"
    if "width (matrix s) * height (matrix s) \<le> 2 ^ 31"
  proof -
    have f: "fits_int (matrix s)" using that by (simp add: fits_int_def)
    show ?thesis
      by (simp add: calls_made_def DrawFrame_ok(1,2) [OF True f])
  qed
  then show ?thesis
    using True DrawFrame_statics [of env buffer s]
      set_frame_calls [of buffer "width (matrix s)" "height (matrix s)"]
    by (simp add: Let_def del: set_map)
next
  case False
  then show ?thesis
    using DrawFrame_statics [of env buffer s]
    by (simp add: Let_def) (simp add: DrawFrame_unfold)
qed

theorem DrawFrame_all_or_nothing_witness:
  "lastTime (snd (DrawFrame scripted frame2 mismatch_test)) = Finite 2
   \<and> FPS (snd (DrawFrame scripted frame2 mismatch_test)) = Finite (1 / 2)
   \<and> fst (DrawFrame scripted frame2 mismatch_test) = Inl SizeMismatch
   \<and> matrix (snd (DrawFrame scripted frame2 mismatch_test)) = blank_matrix 2 2
   \<and> width (matrix render_test) * height (matrix render_test) \<le> 2 ^ 31
   \<and> fst (DrawFrame scripted frame2 render_test) = Inr ()
   \<and> set (map coords (calls_made (matrix render_test) (matrix (snd (DrawFrame scripted frame2 render_test)))))
       = {0..<2} \<times> {0..<1}"
  using DrawFrame_all_or_nothing [of scripted mismatch_test frame2]
    DrawFrame_all_or_nothing [of scripted render_test frame2]
  by (simp add: Let_def mismatch_test_simps render_test_simps blank_matrix_simps frame2_length
      delta_simps set_frame_calls del: set_map)

text \<open>
  Claim C4, as stated, fails: the epsilon does not keep the divisor away from zero on
  every call. When the clock has gone back by exactly \<open>DBL_EPSILON\<close> since the last
  render (\<open>lastTime\<close> is 1, the clock shows the double next below 1), the divisor
  \<open>now - lastTime + DBL_EPSILON\<close> is zero and the frame rate is plus infinity. And the
  frame rate is the rounded quotient of doubles, not the quotient of the real numbers:
  on the first render at time 2 the divisor \<open>2 + DBL_EPSILON\<close> rounds to 2 and the frame
  rate is 0.5.
\<close>

theorem DrawFrame_FPS_counterexample:
  "lastTime backwards_test = Finite 1
   \<and> fst (CurrentTime scripted (world backwards_test)) = Finite (1 - 1 / 2 ^ 52)
   \<and> double_add (double_sub (Finite (1 - 1 / 2 ^ 52)) (Finite 1)) DBL_EPSILON = Finite 0
   \<and> FPS (snd (DrawFrame scripted frame2 backwards_test)) = PosInf
   \<and> FPS (snd (DrawFrame scripted frame2 render_test)) = Finite (1 / 2)
   \<and> (1 / 2 :: real) \<noteq> 1 / (2 - 0 + 1 / 2 ^ 52)"
  by (simp add: DrawFrame_statics backwards_test_simps render_test_simps delta_simps)

text \<open>
  Claim C4, amended. On every call, whether or not the sizes agree, \<open>DrawFrame\<close> sets the
  frame rate to \<open>1.0 / (now - lastTime + DBL_EPSILON)\<close>, each operation that of doubles,
  and then \<open>lastTime\<close> to \<open>now\<close>; \<open>FPS()\<close> returns this value. When the clock has not gone
  back (\<open>lastTime <= now\<close>) the divisor is not zero: this covers the first render, where
  \<open>lastTime\<close> is the sentinel 0, and two renders at the same time, where the frame rate
  is \<open>1 / DBL_EPSILON\<close>. Whenever the divisor is zero the division does not trap: the
  frame rate is an infinity.
\<close>

theorem DrawFrame_FPS:
  "(let now = fst (CurrentTime env (world s)); s' = snd (DrawFrame env buffer s);
        delta = double_add (double_sub now (lastTime s)) DBL_EPSILON
    in FPS s' = double_div (Finite 1) delta
     \<and> lastTime s' = now
     \<and> (lastTime s \<le> now \<longrightarrow> \<not> is_zero delta)
     \<and> (is_zero delta \<longrightarrow> is_inf (FPS s')))"
proof -
  let ?delta = "double_add (double_sub (fst (CurrentTime env (world s))) (lastTime s)) DBL_EPSILON"
  have "is_inf (double_div (Finite 1) ?delta)" if "is_zero ?delta"
    using that by (cases ?delta) (simp_all add: double_div_def signed_infinity_def)
  then show ?thesis
    using DrawFrame_statics [of env buffer s] delta_not_zero [of "lastTime s" "fst (CurrentTime env (world s))"]
    by (simp add: Let_def)
qed

theorem DrawFrame_FPS_witness:
  "lastTime render_test \<le> fst (CurrentTime scripted (world render_test))
   \<and> FPS (snd (DrawFrame scripted frame2 render_test)) = Finite (1 / 2)
   \<and> lastTime same_time_test \<le> fst (CurrentTime scripted (world same_time_test))
   \<and> \<not> is_zero (double_add (double_sub (Finite 2) (Finite 2)) DBL_EPSILON)
   \<and> FPS (snd (DrawFrame scripted frame2 same_time_test)) = Finite (2 ^ 52)
   \<and> lastTime (snd (DrawFrame scripted frame2 same_time_test)) = Finite 2
   \<and> is_zero (double_add (double_sub (Finite (1 - 1 / 2 ^ 52)) (Finite 1)) DBL_EPSILON)
   \<and> is_inf (FPS (snd (DrawFrame scripted frame2 backwards_test)))"
  using DrawFrame_FPS [of scripted render_test frame2] DrawFrame_FPS [of scripted same_time_test frame2]
    DrawFrame_FPS [of scripted backwards_test frame2]
  by (simp add: Let_def render_test_simps same_time_test_simps backwards_test_simps delta_simps
      less_eq_double_def double_le_def)

text \<open>
  Claim C9, as stated, fails: under its precondition alone the index \<open>y * W + x\<close> need not
  be an \<open>int\<close>. On the surface of \<open>INT_MAX\<close> by 2 pixels, with a frame of that many pixels,
  the sum \<open>1 * W + 1\<close> overflows, so \<open>DrawFrame\<close> has undefined behaviour at the read of the
  source pixel \<open>(1, 1)\<close>, and the destination \<open>(W - 2, 1)\<close> is not written once but never.
\<close>

theorem DrawFrame_in_bounds_counterexample:
  "int (length (ColorData huge_frame)) = width (matrix huge_test) * height (matrix huge_test)
   \<and> int_mul 1 (width (matrix huge_test)) = Inr 2147483647
   \<and> int_add 2147483647 1 = Inl SignedOverflow
   \<and> fst (DrawFrame scripted huge_frame huge_test) = Inl SignedOverflow
   \<and> (2147483645, 1) \<in> {0..<width (matrix huge_test)} \<times> {0..<height (matrix huge_test)}
   \<and> (2147483645, 1) \<notin> set (map coords (calls_made (matrix huge_test)
                                   (matrix (snd (DrawFrame scripted huge_frame huge_test)))))"
  by (simp add: huge_test_simps huge_test_run calls_made_def blank_matrix_simps coords_def
      int_mul_def int_add_def INT_MIN_def INT_MAX_def)

text \<open>
  Claim C9, amended. On a surface of at most \<open>2\<^sup>3\<^sup>1\<close> pixels, for a frame whose pixel count
  is the surface's width \<open>W\<close> times its height \<open>H\<close>, \<open>DrawFrame\<close> returns normally, so no
  index overflowed and no read left the colour data; for every \<open>x\<close> in \<open>[0, W)\<close> and \<open>y\<close> in
  \<open>[0, H)\<close> the product \<open>y * W\<close> and the index \<open>y * W + x\<close> are formed without overflow, and
  the index is at least 0 and below \<open>W * H\<close>; the calls of \<open>SetPixel\<close> are those of a
  complete transfer, their destinations are exactly the coordinates \<open>[0, W) \<times> [0, H)\<close> of
  the surface, and no destination occurs twice.
\<close>

theorem DrawFrame_in_bounds:
  assumes "int (length (ColorData buffer)) = width (matrix s) * height (matrix s)"
    and "width (matrix s) * height (matrix s) \<le> 2 ^ 31"
  shows "fst (DrawFrame env buffer s) = Inr ()
       \<and> (\<forall>x y. 0 \<le> x \<and> x < width (matrix s) \<and> 0 \<le> y \<and> y < height (matrix s) \<longrightarrow>
            int_mul y (width (matrix s)) = Inr (y * width (matrix s))
          \<and> int_add (y * width (matrix s)) x = Inr (y * width (matrix s) + x)
          \<and> 0 \<le> y * width (matrix s) + x
          \<and> y * width (matrix s) + x < width (matrix s) * height (matrix s)
          \<and> ColorData_at buffer (y * width (matrix s) + x) \<noteq> Inl IndexOutOfRange)
       \<and> calls_made (matrix s) (matrix (snd (DrawFrame env buffer s)))
           = frame_calls buffer (width (matrix s)) (height (matrix s)) 0
       \<and> set (map coords (calls_made (matrix s) (matrix (snd (DrawFrame env buffer s)))))
           = {0..<width (matrix s)} \<times> {0..<height (matrix s)}
       \<and> distinct (map coords (calls_made (matrix s) (matrix (snd (DrawFrame env buffer s)))))"
proof -
  have f: "fits_int (matrix s)" using assms(2) by (simp add: fits_int_def)
  have c: "calls_made (matrix s) (matrix (snd (DrawFrame env buffer s))) =
      frame_calls buffer (width (matrix s)) (height (matrix s)) 0"
    by (simp add: calls_made_def DrawFrame_ok(2) [OF assms(1) f])
  have i: "int_mul y (width (matrix s)) = Inr (y * width (matrix s))
          \<and> int_add (y * width (matrix s)) x = Inr (y * width (matrix s) + x)
          \<and> 0 \<le> y * width (matrix s) + x
          \<and> y * width (matrix s) + x < width (matrix s) * height (matrix s)
          \<and> ColorData_at buffer (y * width (matrix s) + x) \<noteq> Inl IndexOutOfRange"
    if "0 \<le> x \<and> x < width (matrix s) \<and> 0 \<le> y \<and> y < height (matrix s)" for x y
  proof -
    have "0 \<le> y * width (matrix s) + x \<and> y * width (matrix s) + x < width (matrix s) * height (matrix s)"
      using that by (intro index_in_bounds) auto
    moreover have "int_mul y (width (matrix s)) = Inr (y * width (matrix s))"
      "int_add (y * width (matrix s)) x = Inr (y * width (matrix s) + x)"
      using that assms(2) by (auto intro: index_fits)
    ultimately show ?thesis using assms(1) by (simp add: ColorData_at_def)
  qed
  from i have all: "\<forall>x y. 0 \<le> x \<and> x < width (matrix s) \<and> 0 \<le> y \<and> y < height (matrix s) \<longrightarrow>
            int_mul y (width (matrix s)) = Inr (y * width (matrix s))
          \<and> int_add (y * width (matrix s)) x = Inr (y * width (matrix s) + x)
          \<and> 0 \<le> y * width (matrix s) + x
          \<and> y * width (matrix s) + x < width (matrix s) * height (matrix s)
          \<and> ColorData_at buffer (y * width (matrix s) + x) \<noteq> Inl IndexOutOfRange"
    by blast
  show ?thesis
    by (intro conjI DrawFrame_ok(1) [OF assms(1) f] all)
       (simp_all add: c set_frame_calls distinct_frame_calls del: set_map)
qed

theorem DrawFrame_in_bounds_witness:
  "int (length (ColorData frame2)) = width (matrix render_test) * height (matrix render_test)
   \<and> width (matrix render_test) * height (matrix render_test) \<le> 2 ^ 31
   \<and> fst (DrawFrame scripted frame2 render_test) = Inr ()
   \<and> calls_made (matrix render_test) (matrix (snd (DrawFrame scripted frame2 render_test)))
       = [(1, 0, (1, 2, 3)), (0, 0, (4, 5, 6))]
   \<and> set (map coords (calls_made (matrix render_test) (matrix (snd (DrawFrame scripted frame2 render_test)))))
       = {0..<2} \<times> {0..<1}
   \<and> distinct (map coords (calls_made (matrix render_test) (matrix (snd (DrawFrame scripted frame2 render_test)))))"
proof -
  have h: "int (length (ColorData frame2)) = width (matrix render_test) * height (matrix render_test)"
    by (simp add: render_test_simps blank_matrix_simps frame2_length)
  have k: "width (matrix render_test) * height (matrix render_test) \<le> 2 ^ 31"
    by (simp add: render_test_simps blank_matrix_simps)
  have c: "frame_calls frame2 2 1 0 = [(1, 0, (1, 2, 3)), (0, 0, (4, 5, 6))]"
    by (simp add: frame_calls_def upto_rec1 pixel_of_def rgb_of_def frame2_def)
  have d: "width (matrix render_test) = 2" "height (matrix render_test) = 1"
    by (simp_all add: render_test_simps blank_matrix_simps)
  note t = DrawFrame_in_bounds [OF h k, of scripted, unfolded d c]
  from t have "fst (DrawFrame scripted frame2 render_test) = Inr ()" by blast
  moreover from t have "calls_made (matrix render_test) (matrix (snd (DrawFrame scripted frame2 render_test)))
       = [(1, 0, (1, 2, 3)), (0, 0, (4, 5, 6))]" by blast
  moreover from t have "set (map coords (calls_made (matrix render_test) (matrix (snd (DrawFrame scripted frame2 render_test)))))
       = {0..<2} \<times> {0..<1}" by blast
  moreover from t have "distinct (map coords (calls_made (matrix render_test) (matrix (snd (DrawFrame scripted frame2 render_test)))))"
    by blast
  ultimately show ?thesis using h k by blast
qed


section \<open>Properties of RunDrawLoop\<close>

subsection \<open>The order of the events\<close>

text \<open>The predicates on events and on the ends of the loops, spelled out.\<close>

lemma is_event_iff [simp]:
  "is_InterruptRead e \<longleftrightarrow> (\<exists>i. e = InterruptRead i)" "is_AgeCheck e \<longleftrightarrow> (\<exists>a. e = AgeCheck a)"
  "is_Pop e \<longleftrightarrow> (\<exists>p. e = Pop p)" "is_AgeDelay e \<longleftrightarrow> (\<exists>a. e = AgeDelay a)"
  by (cases e; simp)+

lemma follows_Pop_Some:
  "follows burn (Pop (Some buf)) e' = (if burn then \<exists>a. e' = AgeBurn buf a else e' = Draw buf)"
  by (cases e') auto

declare follows.simps(4) [simp del] follows_Pop_Some [simp]

lemma inner_end_iff:
  "inner_end burn out s' =
     (case out of
        Returned u \<Rightarrow> trace s' \<noteq> [] \<and> (\<exists>a. \<not> a \<le> 0 \<and> last (trace s') = AgeCheck a)
      | Threw e \<Rightarrow> e = SizeMismatch \<and> trace s' \<noteq> []
                   \<and> (\<exists>buf. last (trace s') = Draw buf \<and> mismatch buf (matrix s'))
      | Undefined e \<Rightarrow> e = SignedOverflow \<and> trace s' \<noteq> []
                   \<and> (\<exists>buf. last (trace s') = Draw buf \<and> \<not> mismatch buf (matrix s')
                             \<and> \<not> fits_int (matrix s'))
      | OutOfFuel \<Rightarrow> successively (follows burn) (trace s' @ [AgeCheck 0]))"
  by (auto simp: inner_end_def split: outcome.splits event.splits)

lemma outer_end_iff:
  "outer_end burn out s' =
     (case out of
        Returned v \<Rightarrow> v \<and> trace s' \<noteq> [] \<and> last (trace s') = InterruptRead True
      | Threw e \<Rightarrow> e = SizeMismatch \<and> trace s' \<noteq> []
                   \<and> (\<exists>buf. last (trace s') = Draw buf \<and> mismatch buf (matrix s'))
      | Undefined e \<Rightarrow> trace s' \<noteq> []
                   \<and> ((\<exists>buf. last (trace s') = Draw buf \<and> e = SignedOverflow
                              \<and> \<not> mismatch buf (matrix s') \<and> \<not> fits_int (matrix s'))
                      \<or> (\<exists>a. last (trace s') = AgeDelay a \<and> e = ConversionOutOfRange
                              \<and> to_int64 (std_min kMaximumWait (double_mul a (Finite 1000000))) = None))
      | OutOfFuel \<Rightarrow> successively (follows burn) (trace s' @ [AgeCheck 0])
                   \<or> successively (follows burn) (trace s' @ [InterruptRead False]))"
  by (auto simp: outer_end_def split: outcome.splits event.splits)

lemma drawn_ok_iff: "drawn_ok t m \<longleftrightarrow> (\<forall>buf. Draw buf \<in> set t \<longrightarrow> \<not> mismatch buf m)"
  by (auto simp: drawn_ok_def list_all_iff split: event.splits)

lemma DrawFrame_trace: "trace (snd (DrawFrame env buffer s)) = trace s"
  by (simp add: DrawFrame_unfold)

lemma DrawFrame_width: "width (matrix (snd (DrawFrame env buffer s))) = width (matrix s)"
  using x_loop_width [of buffer 0 "matrix s"] by (simp add: DrawFrame_unfold)

lemma DrawFrame_height: "height (matrix (snd (DrawFrame env buffer s))) = height (matrix s)"
  using x_loop_height [of buffer 0 "matrix s"] by (simp add: DrawFrame_unfold)

lemma DrawFrame_error:
  assumes "fst (DrawFrame env buffer s) = Inl e"
  shows "if mismatch buffer (matrix s) then e = SizeMismatch
         else e = SignedOverflow \<and> \<not> fits_int (matrix s)"
  using DrawFrame_cases [where env = env and buffer = buffer and s = s] assms by (simp split: if_splits)

lemma failed_simps:
  "failed SizeMismatch = Threw SizeMismatch" "failed SignedOverflow = Undefined SignedOverflow"
  by (simp_all add: failed_def)

lemma emit_simps:
  "trace (emit e s) = trace s @ [e]" "matrix (emit e s) = matrix s" "world (emit e s) = world s"
  "lastTime (emit e s) = lastTime s" "FPS_static (emit e s) = FPS_static s"
  by (simp_all add: emit_def)

lemma follows_AgeCheck: "follows burn e (AgeCheck a) \<Longrightarrow> follows burn e (AgeCheck a')"
  by (cases "(burn, e, AgeCheck a)" rule: follows.cases) (auto split: if_splits option.splits)

lemma follows_InterruptRead: "follows burn e (InterruptRead i) \<Longrightarrow> follows burn e (InterruptRead i')"
  by (cases "(burn, e, InterruptRead i)" rule: follows.cases) (auto split: if_splits option.splits)

lemma draw_due_trace:
  assumes "successively (follows burn) (trace s @ [AgeCheck 0])"
  shows "successively (follows burn) (trace (snd (draw_due burn env fuel s)))
       \<and> (\<exists>es. trace (snd (draw_due burn env fuel s)) = trace s @ es)
       \<and> inner_end burn (fst (draw_due burn env fuel s)) (snd (draw_due burn env fuel s))"
  using assms
proof (induction fuel arbitrary: s)
  case 0
  then show ?case by (simp add: inner_end_iff successively_append_iff)
next
  case (Suc fuel)
  obtain age w1 where a: "AgeOfOldestBuffer env (world s) = (age, w1)"
    by (cases "AgeOfOldestBuffer env (world s)")
  define s1 where "s1 = emit (AgeCheck age) (s\<lparr>world := w1\<rparr>)"
  have t1: "trace s1 = trace s @ [AgeCheck age]" by (simp add: s1_def emit_def)
  have ok1: "successively (follows burn) (trace s1)"
    using Suc.prems by (auto simp: t1 successively_append_iff intro: follows_AgeCheck)
  show ?case
  proof (cases "age \<le> 0")
    case False
    then have step: "draw_due burn env (Suc fuel) s = (Returned (), s1)"
      by (simp add: a s1_def)
    show ?thesis unfolding step using ok1 t1 False by (simp add: inner_end_iff)
  next
    case True
    obtain buffer w2 where p: "PopOldestBuffer env (world s1) = (buffer, w2)"
      by (cases "PopOldestBuffer env (world s1)")
    define s2 where "s2 = emit (Pop buffer) (s1\<lparr>world := w2\<rparr>)"
    have r2: "trace s2 = trace s1 @ [Pop buffer]" by (simp add: s2_def emit_def)
    have t2: "trace s2 = trace s @ [AgeCheck age, Pop buffer]" by (simp add: r2 t1)
    have ok2: "successively (follows burn) (trace s2)"
      using ok1 True by (simp add: t2 t1 successively_append_iff)
    have draw: "successively (follows burn) (trace (snd (case DrawFrame env buf (emit (Draw buf) s3) of
                               (Inl e, s4) \<Rightarrow> (failed e, s4)
                             | (Inr u, s4) \<Rightarrow> draw_due burn env fuel s4)))
       \<and> (\<exists>es. trace (snd (case DrawFrame env buf (emit (Draw buf) s3) of
                               (Inl e, s4) \<Rightarrow> (failed e, s4)
                             | (Inr u, s4) \<Rightarrow> draw_due burn env fuel s4)) = trace s @ es)
       \<and> inner_end burn (fst (case DrawFrame env buf (emit (Draw buf) s3) of
                               (Inl e, s4) \<Rightarrow> (failed e, s4)
                             | (Inr u, s4) \<Rightarrow> draw_due burn env fuel s4))
                           (snd (case DrawFrame env buf (emit (Draw buf) s3) of
                               (Inl e, s4) \<Rightarrow> (failed e, s4)
                             | (Inr u, s4) \<Rightarrow> draw_due burn env fuel s4))"
      if ok3: "successively (follows burn) (trace s3 @ [Draw buf])"
        and ex3: "\<exists>es. trace s3 = trace s @ es" for s3 :: "'a state" and buf
    proof -
      obtain res s4 where d: "DrawFrame env buf (emit (Draw buf) s3) = (res, s4)"
        by (cases "DrawFrame env buf (emit (Draw buf) s3)")
      have t4: "trace s4 = trace s3 @ [Draw buf]"
        using DrawFrame_trace [of env buf "emit (Draw buf) s3"] d by (simp add: emit_simps)
      have m4: "width (matrix s4) = width (matrix s3)" "height (matrix s4) = height (matrix s3)"
        using DrawFrame_width [of env buf "emit (Draw buf) s3"]
          DrawFrame_height [of env buf "emit (Draw buf) s3"] d by (simp_all add: emit_simps)
      show ?thesis
      proof (cases res)
        case (Inl e)
        note err = DrawFrame_error [of env buf "emit (Draw buf) s3" e, unfolded d, simplified, OF Inl]
        show ?thesis
        proof (cases "mismatch buf (matrix s3)")
          case True
          with err m4 have "e = SizeMismatch \<and> mismatch buf (matrix s4)"
            by (simp add: mismatch_def emit_simps)
          then show ?thesis using ok3 ex3 by (auto simp: d Inl t4 inner_end_iff failed_simps)
        next
          case False
          with err m4 have "e = SignedOverflow \<and> \<not> mismatch buf (matrix s4) \<and> \<not> fits_int (matrix s4)"
            by (simp add: mismatch_def fits_int_def emit_simps)
          then show ?thesis using ok3 ex3 by (auto simp: d Inl t4 inner_end_iff failed_simps)
        qed
      next
        case (Inr u)
        have "successively (follows burn) (trace s4 @ [AgeCheck 0])"
          using ok3 by (simp add: t4 successively_append_iff)
        from Suc.IH [OF this] show ?thesis using ex3 by (auto simp: d Inr t4)
      qed
    qed
    show ?thesis
    proof (cases buffer)
      case None
      have step: "draw_due burn env (Suc fuel) s = draw_due burn env fuel s2"
        using True p by (simp add: a s1_def s2_def None)
      have "successively (follows burn) (trace s2 @ [AgeCheck 0])"
        using ok2 True by (simp add: successively_append_iff t2 None)
      from Suc.IH [OF this] show ?thesis unfolding step by (auto simp: t2)
    next
      case (Some buf)
      show ?thesis
      proof (cases burn)
        case False
        have step: "draw_due burn env (Suc fuel) s =
            (case DrawFrame env buf (emit (Draw buf) s2) of
               (Inl e, s4) \<Rightarrow> (failed e, s4)
             | (Inr u, s4) \<Rightarrow> draw_due burn env fuel s4)"
          using True p False by (simp add: a s1_def s2_def Some split: prod.split sum.split)
        have "successively (follows burn) (trace s2 @ [Draw buf])"
          using ok2 True False by (simp add: successively_append_iff t2 Some)
        from draw [OF this] show ?thesis unfolding step by (simp add: t2)
      next
        case burning: True
        obtain age2 w3 where a2: "AgeOfOldestBuffer env (world s2) = (age2, w3)"
          by (cases "AgeOfOldestBuffer env (world s2)")
        define s3 where "s3 = emit (AgeBurn buf age2) (s2\<lparr>world := w3\<rparr>)"
        have r3: "trace s3 = trace s2 @ [AgeBurn buf age2]"
          by (simp add: s3_def emit_def)
        have t3: "trace s3 = trace s @ [AgeCheck age, Pop buffer, AgeBurn buf age2]"
          by (simp add: r3 t2)
        have ok3: "successively (follows burn) (trace s3)"
          using ok2 True burning by (simp add: t3 t2 successively_append_iff Some)
        show ?thesis
        proof (cases "age2 \<le> 0")
          case skip: True
          have step: "draw_due burn env (Suc fuel) s = draw_due burn env fuel s3"
            using True p burning skip a2 by (simp add: a s1_def s2_def Some s3_def Let_def)
          have "successively (follows burn) (trace s3 @ [AgeCheck 0])"
            using ok3 True skip burning by (simp add: successively_append_iff t3)
          from Suc.IH [OF this] show ?thesis unfolding step by (auto simp: t3)
        next
          case noskip: False
          have step: "draw_due burn env (Suc fuel) s =
              (case DrawFrame env buf (emit (Draw buf) s3) of
                 (Inl e, s4) \<Rightarrow> (failed e, s4)
               | (Inr u, s4) \<Rightarrow> draw_due burn env fuel s4)"
            using True p burning noskip a2 by (simp add: a s1_def s2_def Some s3_def Let_def split: prod.split sum.split)
          have "successively (follows burn) (trace s3 @ [Draw buf])"
            using ok3 True noskip burning by (simp add: successively_append_iff t3)
          from draw [OF this] show ?thesis unfolding step by (simp add: t3)
        qed
      qed
    qed
  qed
qed

lemma RunDrawLoop_with_trace:
  assumes "successively (follows burn) (trace s @ [InterruptRead False])"
  shows "successively (follows burn) (trace (snd (RunDrawLoop_with burn env fuel s)))
       \<and> (\<exists>es. trace (snd (RunDrawLoop_with burn env fuel s)) = trace s @ es
               \<and> (es = [] \<or> (\<exists>i. hd es = InterruptRead i)))
       \<and> outer_end burn (fst (RunDrawLoop_with burn env fuel s)) (snd (RunDrawLoop_with burn env fuel s))"
  using assms
proof (induction fuel arbitrary: s)
  case 0
  then show ?case by (simp add: outer_end_iff successively_append_iff)
next
  case (Suc fuel)
  obtain interrupted w1 where i: "interrupt_received env (world s) = (interrupted, w1)"
    by (cases "interrupt_received env (world s)")
  define s1 where "s1 = emit (InterruptRead interrupted) (s\<lparr>world := w1\<rparr>)"
  have t1: "trace s1 = trace s @ [InterruptRead interrupted]" by (simp add: s1_def emit_def)
  have ok1: "successively (follows burn) (trace s1)"
    using Suc.prems by (auto simp: t1 successively_append_iff intro: follows_InterruptRead)
  show ?case
  proof (cases interrupted)
    case True
    then have step: "RunDrawLoop_with burn env (Suc fuel) s = (Returned True, s1)"
      by (simp add: i s1_def)
    show ?thesis unfolding step using ok1 t1 True by (auto simp: outer_end_iff)
  next
    case False
    obtain out s2 where d: "draw_due burn env fuel s1 = (out, s2)"
      by (cases "draw_due burn env fuel s1")
    have "successively (follows burn) (trace s1 @ [AgeCheck 0])"
      using ok1 False by (simp add: t1 successively_append_iff)
    from draw_due_trace [OF this, of env fuel]
    have ok2: "successively (follows burn) (trace s2)"
      and ex2: "\<exists>es. trace s2 = trace s1 @ es"
      and end2: "inner_end burn out s2"
      by (simp_all add: d)
    from ex2 obtain es2 where t2: "trace s2 = trace s @ InterruptRead interrupted # es2"
      by (auto simp: t1)
    show ?thesis
    proof (cases out)
      case OutOfFuel
      have step: "RunDrawLoop_with burn env (Suc fuel) s = (OutOfFuel, s2)"
        using False d by (simp add: i s1_def OutOfFuel)
      show ?thesis unfolding step using ok2 t2 end2 by (auto simp: outer_end_iff inner_end_iff OutOfFuel)
    next
      case (Threw e)
      have step: "RunDrawLoop_with burn env (Suc fuel) s = (Threw e, s2)"
        using False d by (simp add: i s1_def Threw)
      show ?thesis unfolding step using ok2 t2 end2 by (auto simp: outer_end_iff inner_end_iff Threw)
    next
      case (Undefined e)
      have step: "RunDrawLoop_with burn env (Suc fuel) s = (Undefined e, s2)"
        using False d by (simp add: i s1_def Undefined)
      show ?thesis unfolding step using ok2 t2 end2 by (auto simp: outer_end_iff inner_end_iff Undefined)
    next
      case (Returned u)
      obtain age w2 where a: "AgeOfOldestBuffer env (world s2) = (age, w2)"
        by (cases "AgeOfOldestBuffer env (world s2)")
      define s3 where "s3 = emit (AgeDelay age) (s2\<lparr>world := w2\<rparr>)"
      from end2 obtain a0 where l2: "trace s2 \<noteq> []" "\<not> a0 \<le> 0" "last (trace s2) = AgeCheck a0"
        by (auto simp: inner_end_iff Returned)
      have t3: "trace s3 = trace s2 @ [AgeDelay age]" by (simp add: s3_def emit_def)
      have ok3: "successively (follows burn) (trace s3)"
        using ok2 l2 by (simp add: t3 successively_append_iff)
      show ?thesis
      proof (cases "to_int64 (std_min kMaximumWait (double_mul age (Finite 1000000)))")
        case None
        have step: "RunDrawLoop_with burn env (Suc fuel) s = (Undefined ConversionOutOfRange, s3)"
          using False d a None by (simp add: i s1_def Returned s3_def Let_def)
        show ?thesis unfolding step using ok3 None by (auto simp: outer_end_iff t3 t2)
      next
        case (Some delay)
        define s4 where "s4 = (if delay > 0
                                then emit (Sleep delay) (s3\<lparr>world := sleep_for env delay (world s3)\<rparr>)
                                else s3)"
        have step: "RunDrawLoop_with burn env (Suc fuel) s = RunDrawLoop_with burn env fuel s4"
          using False d a Some by (simp add: i s1_def Returned s3_def Let_def s4_def)
        have t4: "trace s4 = trace s3 @ (if delay > 0 then [Sleep delay] else [])"
          by (simp add: s4_def emit_def)
        have ok4: "successively (follows burn) (trace s4 @ [InterruptRead False])"
          using ok3 Some by (auto simp add: t4 t3 successively_append_iff)
        from Suc.IH [OF this] show ?thesis unfolding step
          by (auto simp: t4 t3 t2)
      qed
    qed
  qed
qed

lemma follows_Pop: "follows burn e (Pop p) \<Longrightarrow> \<exists>a. a \<le> 0 \<and> e = AgeCheck a"
  by (cases "(burn, e, Pop p)" rule: follows.cases) (auto split: if_splits option.splits)

lemma follows_Draw:
  "follows burn e (Draw buf) \<Longrightarrow>
     (if burn then \<exists>a. \<not> a \<le> 0 \<and> e = AgeBurn buf a else e = Pop (Some buf))"
  by (cases "(burn, e, Draw buf)" rule: follows.cases) (auto split: if_splits option.splits)

lemma follows_AgeBurn: "follows burn e (AgeBurn buf a) \<Longrightarrow> burn \<and> e = Pop (Some buf)"
  by (cases "(burn, e, AgeBurn buf a)" rule: follows.cases) (auto split: if_splits option.splits)

lemma follows_AgeDelay: "follows burn e (AgeDelay a) \<Longrightarrow> \<exists>a0. \<not> a0 \<le> 0 \<and> e = AgeCheck a0"
  by (cases "(burn, e, AgeDelay a)" rule: follows.cases) (auto split: if_splits option.splits)

lemma follows_Sleep:
  "follows burn e (Sleep d) \<Longrightarrow>
     \<exists>a. e = AgeDelay a \<and> to_int64 (std_min kMaximumWait (double_mul a (Finite 1000000))) = Some d \<and> 0 < d"
  by (cases "(burn, e, Sleep d)" rule: follows.cases) (auto split: if_splits option.splits)

lemma last_event:
  assumes "outer_end burn out s'" and "trace s' \<noteq> []"
  shows "(out = Returned True \<and> last (trace s') = InterruptRead True)
       \<or> (out = Threw SizeMismatch \<and> (\<exists>buf. last (trace s') = Draw buf \<and> mismatch buf (matrix s')))
       \<or> (out = Undefined SignedOverflow
           \<and> (\<exists>buf. last (trace s') = Draw buf \<and> \<not> mismatch buf (matrix s') \<and> \<not> fits_int (matrix s')))
       \<or> (out = Undefined ConversionOutOfRange
           \<and> (\<exists>a. last (trace s') = AgeDelay a
                  \<and> to_int64 (std_min kMaximumWait (double_mul a (Finite 1000000))) = None))
       \<or> (out = OutOfFuel \<and> (follows burn (last (trace s')) (AgeCheck 0)
                              \<or> follows burn (last (trace s')) (InterruptRead False)))"
  using assms by (cases out) (auto simp: outer_end_iff successively_append_iff)

text \<open>The facts about a run that starts with an empty trace.\<close>

lemma run_facts:
  assumes "trace s = []"
  shows "successively (follows burn) (trace (snd (RunDrawLoop_with burn env fuel s)))"
    and "trace (snd (RunDrawLoop_with burn env fuel s)) \<noteq> [] \<Longrightarrow>
           \<exists>v. trace (snd (RunDrawLoop_with burn env fuel s)) ! 0 = InterruptRead v"
    and "outer_end burn (fst (RunDrawLoop_with burn env fuel s)) (snd (RunDrawLoop_with burn env fuel s))"
proof -
  have "successively (follows burn) (trace s @ [InterruptRead False])"
    using assms by simp
  note t = RunDrawLoop_with_trace [OF this, of env fuel]
  show "successively (follows burn) (trace (snd (RunDrawLoop_with burn env fuel s)))"
    using t by blast
  show "outer_end burn (fst (RunDrawLoop_with burn env fuel s)) (snd (RunDrawLoop_with burn env fuel s))"
    using t by blast
  show "\<exists>v. trace (snd (RunDrawLoop_with burn env fuel s)) ! 0 = InterruptRead v"
    if "trace (snd (RunDrawLoop_with burn env fuel s)) \<noteq> []"
    using t that assms by (auto simp: hd_conv_nth)
qed

lemma run_prev:
  assumes "trace s = []" and "i < length (trace (snd (RunDrawLoop_with burn env fuel s)))"
    and "\<forall>v. trace (snd (RunDrawLoop_with burn env fuel s)) ! i \<noteq> InterruptRead v"
  shows "0 < i \<and> follows burn (trace (snd (RunDrawLoop_with burn env fuel s)) ! (i - 1))
                           (trace (snd (RunDrawLoop_with burn env fuel s)) ! i)"
proof -
  let ?t = "trace (snd (RunDrawLoop_with burn env fuel s))"
  have "?t \<noteq> []" using assms(2) by auto
  from run_facts(2) [OF assms(1) this] assms(3) have "i \<noteq> 0" by (cases i) auto
  moreover from this have "Suc (i - 1) < length ?t" using assms(2) by simp
  from successively_nth [OF run_facts(1) [OF assms(1)] this]
  have "follows burn (?t ! (i - 1)) (?t ! i)" using \<open>i \<noteq> 0\<close> by simp
  ultimately show ?thesis by simp
qed

lemma run_next:
  assumes "trace s = []" and "Suc i < length (trace (snd (RunDrawLoop_with burn env fuel s)))"
  shows "follows burn (trace (snd (RunDrawLoop_with burn env fuel s)) ! i)
                      (trace (snd (RunDrawLoop_with burn env fuel s)) ! Suc i)"
  using successively_nth [OF run_facts(1) [OF assms(1)] assms(2)] .

lemma run_last:
  assumes "trace s = []" and "i < length (trace (snd (RunDrawLoop_with burn env fuel s)))"
    and "\<not> Suc i < length (trace (snd (RunDrawLoop_with burn env fuel s)))"
  shows "(fst (RunDrawLoop_with burn env fuel s) = Returned True
           \<and> trace (snd (RunDrawLoop_with burn env fuel s)) ! i = InterruptRead True)
       \<or> (fst (RunDrawLoop_with burn env fuel s) = Threw SizeMismatch
           \<and> (\<exists>buf. trace (snd (RunDrawLoop_with burn env fuel s)) ! i = Draw buf
                \<and> mismatch buf (matrix (snd (RunDrawLoop_with burn env fuel s)))))
       \<or> (fst (RunDrawLoop_with burn env fuel s) = Undefined SignedOverflow
           \<and> (\<exists>buf. trace (snd (RunDrawLoop_with burn env fuel s)) ! i = Draw buf
                \<and> \<not> mismatch buf (matrix (snd (RunDrawLoop_with burn env fuel s)))
                \<and> \<not> fits_int (matrix (snd (RunDrawLoop_with burn env fuel s)))))
       \<or> (fst (RunDrawLoop_with burn env fuel s) = Undefined ConversionOutOfRange
           \<and> (\<exists>a. trace (snd (RunDrawLoop_with burn env fuel s)) ! i = AgeDelay a
                \<and> to_int64 (std_min kMaximumWait (double_mul a (Finite 1000000))) = None))
       \<or> (fst (RunDrawLoop_with burn env fuel s) = OutOfFuel
           \<and> (follows burn (trace (snd (RunDrawLoop_with burn env fuel s)) ! i) (AgeCheck 0)
             \<or> follows burn (trace (snd (RunDrawLoop_with burn env fuel s)) ! i) (InterruptRead False)))"
proof -
  let ?t = "trace (snd (RunDrawLoop_with burn env fuel s))"
  have ne: "?t \<noteq> []" using assms(2) by auto
  have "i = length ?t - 1" using assms(2,3) by simp
  then have "last ?t = ?t ! i" using ne by (simp add: last_conv_nth)
  with last_event [OF run_facts(3) [OF assms(1)] ne] show ?thesis by simp
qed

lemma run_not_last:
  assumes "trace s = []" and "i < length (trace (snd (RunDrawLoop_with burn env fuel s)))"
    and "\<not> follows burn (trace (snd (RunDrawLoop_with burn env fuel s)) ! i) (AgeCheck 0)"
    and "\<not> follows burn (trace (snd (RunDrawLoop_with burn env fuel s)) ! i) (InterruptRead False)"
    and "trace (snd (RunDrawLoop_with burn env fuel s)) ! i \<noteq> InterruptRead True"
    and "\<forall>buf. trace (snd (RunDrawLoop_with burn env fuel s)) ! i \<noteq> Draw buf"
    and "\<forall>a. trace (snd (RunDrawLoop_with burn env fuel s)) ! i = AgeDelay a \<longrightarrow>
           to_int64 (std_min kMaximumWait (double_mul a (Finite 1000000))) \<noteq> None"
  shows "Suc i < length (trace (snd (RunDrawLoop_with burn env fuel s)))"
proof (rule ccontr)
  assume "\<not> Suc i < length (trace (snd (RunDrawLoop_with burn env fuel s)))"
  from run_last [OF assms(1,2) this] assms(3-7) show False by auto
qed


subsection \<open>The test runs\<close>

lemma age_simps:
  "Finite 0 \<le> (0::double)" "\<not> Finite 1 \<le> (0::double)" "\<not> Finite (1 / 128) \<le> (0::double)"
  by (simp_all add: double_eval)

lemma delay_simps:
  "to_int64 (std_min kMaximumWait (double_mul (Finite (1 / 128)) (Finite 1000000))) = Some 7812"
  "to_int64 (std_min kMaximumWait (double_mul (Finite 1) (Finite 1000000))) = Some 10000"
  "to_int64 (std_min kMaximumWait
     (double_mul (Finite (4722366482869645 / 4722366482869645213696)) (Finite 1000000))) = Some 1"
  "to_int64 (std_min kMaximumWait (double_mul NegInf (Finite 1000000))) = None"
  by (simp_all add: double_eval)

lemma product_simps:
  "std_min kMaximumWait (double_mul (Finite (1 / 128)) (Finite 1000000)) = Finite (15625 / 2)"
  "std_min kMaximumWait (double_mul (Finite 1) (Finite 1000000)) = Finite 10000"
  "double_mul (Finite (4722366482869645 / 4722366482869645213696)) (Finite 1000000) = Finite 1"
  "std_min kMaximumWait (Finite 1) = Finite 1"
  by (simp_all add: double_eval)

lemma dims_simps:
  "width (blank_matrix 2 1) = 2" "height (blank_matrix 2 1) = 1"
  "width (blank_matrix 2 2) = 2" "height (blank_matrix 2 2) = 2"
  by (simp_all add: blank_matrix_simps)

lemmas run_simps = RunDrawLoop_def burnExtraFrames_def scripted_def initial_state_def emit_def
  Let_def numeral_eq_Suc age_simps delay_simps DrawFrame_unfold DrawFrame_x_loop.simps
  DrawFrame_y_loop.simps int_mul_def int_add_def INT_MIN_def INT_MAX_def ColorData_at_def
  SetPixel_def dims_simps blank_matrix_simps failed_def

lemma loop_test_run:
  "fst (RunDrawLoop scripted 4 loop_test) = Returned True"
  "trace (snd (RunDrawLoop scripted 4 loop_test)) =
     [InterruptRead False, AgeCheck (Finite 0), Pop None, AgeCheck (Finite 0), Pop (Some frame2),
      Draw frame2, AgeCheck (Finite (1 / 128)), AgeDelay (Finite (1 / 128)), Sleep 7812,
      InterruptRead False, AgeCheck (Finite 1), AgeDelay (Finite 1), Sleep 10000, InterruptRead True]"
  "calls (matrix (snd (RunDrawLoop scripted 4 loop_test))) = [(1, 0, (1, 2, 3)), (0, 0, (4, 5, 6))]"
  by (simp_all add: run_simps loop_test_def frame2_def)

lemma loop_test_short:
  "fst (RunDrawLoop scripted 2 loop_test) = OutOfFuel"
  "trace (snd (RunDrawLoop scripted 2 loop_test)) =
     [InterruptRead False, AgeCheck (Finite 0), Pop None]"
  "trace (snd (RunDrawLoop scripted 3 loop_test)) =
     [InterruptRead False, AgeCheck (Finite 0), Pop None, AgeCheck (Finite 0), Pop (Some frame2),
      Draw frame2]"
  by (simp_all add: run_simps loop_test_def frame2_def)

lemma burn_test_run:
  "fst (RunDrawLoop_with True scripted 4 burn_test) = Returned True"
  "trace (snd (RunDrawLoop_with True scripted 4 burn_test)) =
     [InterruptRead False, AgeCheck (Finite 0), Pop (Some frame2), AgeBurn frame2 (Finite 0),
      AgeCheck (Finite 0), Pop (Some frame3), AgeBurn frame3 (Finite 1), Draw frame3,
      AgeCheck (Finite 1), AgeDelay (Finite 1), Sleep 10000, InterruptRead True]"
  "calls (matrix (snd (RunDrawLoop_with True scripted 4 burn_test))) =
     [(1, 0, (7, 8, 9)), (0, 0, (10, 11, 12))]"
  by (simp_all add: run_simps burn_test_def frame2_def frame3_def)

lemma throw_test_run:
  "fst (RunDrawLoop scripted (Suc (Suc n)) throw_test) = Threw SizeMismatch"
  "trace (snd (RunDrawLoop scripted (Suc (Suc n)) throw_test)) =
     [InterruptRead False, AgeCheck (Finite 0), Pop (Some frame2), Draw frame2]"
  "calls (matrix (snd (RunDrawLoop scripted (Suc (Suc n)) throw_test))) = []"
  by (simp_all add: run_simps throw_test_def frame2_def)

lemma micro_test_run:
  "trace (snd (RunDrawLoop scripted 2 micro_test)) =
     [InterruptRead False, AgeCheck (Finite 1),
      AgeDelay (Finite (4722366482869645 / 4722366482869645213696)), Sleep 1, InterruptRead True]"
  by (simp add: run_simps micro_test_def)

lemma stale_test_run:
  "fst (RunDrawLoop scripted 2 stale_test) = Undefined ConversionOutOfRange"
  "trace (snd (RunDrawLoop scripted 2 stale_test)) =
     [InterruptRead False, AgeCheck (Finite 1), AgeDelay NegInf]"
  by (simp_all add: run_simps stale_test_def)

lemma loop_test_trace: "trace loop_test = []"
  by (simp add: loop_test_def initial_state_def)

lemma throw_test_simps: "trace throw_test = []" "matrix throw_test = blank_matrix 2 2"
  by (simp_all add: throw_test_def initial_state_def)

lemma loop_test_matrix: "matrix loop_test = blank_matrix 2 1"
  by (simp add: loop_test_def initial_state_def)

lemma burn_test_simps: "trace burn_test = []" "matrix burn_test = blank_matrix 2 1"
  by (simp_all add: burn_test_def initial_state_def)

lemma micro_test_trace: "trace micro_test = []"
  by (simp add: micro_test_def initial_state_def)

lemma stale_test_trace: "trace stale_test = []"
  by (simp add: stale_test_def initial_state_def)


subsection \<open>More fuel continues a run\<close>

text \<open>
  A run that has returned, thrown or run into undefined behaviour is the same with more
  fuel, and a run that is out of fuel is a proper prefix of the run with one more unit:
  \<open>OutOfFuel\<close> is a loop that is still going on, and what it has done so far is what the
  longer run did first.
\<close>

lemma draw_due_Suc:
  "draw_due burn env (Suc n) s =
     (case draw_due_body burn env s of Inl res \<Rightarrow> res | Inr s' \<Rightarrow> draw_due burn env n s')"
  by (simp add: draw_due_body_def Let_def split: prod.split option.split sum.split)

lemma RunDrawLoop_with_Suc:
  "RunDrawLoop_with burn env (Suc n) s =
     (let s1 = emit (InterruptRead (fst (interrupt_received env (world s))))
                 (s\<lparr>world := snd (interrupt_received env (world s))\<rparr>)
      in if fst (interrupt_received env (world s)) then (Returned True, s1)
         else (case fst (draw_due burn env n s1) of
                 Returned u \<Rightarrow>
                   (case fst (wait_step env (snd (draw_due burn env n s1))) of
                      Inl e \<Rightarrow> (Undefined e, snd (wait_step env (snd (draw_due burn env n s1))))
                    | Inr u \<Rightarrow> RunDrawLoop_with burn env n (snd (wait_step env (snd (draw_due burn env n s1)))))
               | Threw e \<Rightarrow> (Threw e, snd (draw_due burn env n s1))
               | Undefined e \<Rightarrow> (Undefined e, snd (draw_due burn env n s1))
               | OutOfFuel \<Rightarrow> (OutOfFuel, snd (draw_due burn env n s1))))"
  by (simp add: RunDrawLoop_with.simps(2) wait_step_def Let_def
      split: prod.split outcome.split option.split)

declare draw_due.simps(2) [simp del] RunDrawLoop_with.simps(2) [simp del]

lemma DrawFrame_trace_eq: "DrawFrame env buffer s = (res, s') \<Longrightarrow> trace s' = trace s"
  using DrawFrame_trace [of env buffer s] by simp

lemma draw_due_body_Inl:
  assumes "draw_due_body burn env s = Inl (out, s')"
  shows "out \<noteq> OutOfFuel \<and> (\<exists>es. es \<noteq> [] \<and> trace s' = trace s @ es)"
  using assms
  by (auto simp: draw_due_body_def Let_def emit_def failed_def dest!: DrawFrame_trace_eq
      split: prod.splits option.splits sum.splits if_splits)

lemma draw_due_body_Inr:
  assumes "draw_due_body burn env s = Inr s'"
  shows "\<exists>es. es \<noteq> [] \<and> trace s' = trace s @ es"
  using assms
  by (auto simp: draw_due_body_def Let_def emit_def dest!: DrawFrame_trace_eq
      split: prod.splits option.splits sum.splits if_splits)

lemma draw_due_stable:
  "fst (draw_due burn env n s) \<noteq> OutOfFuel \<Longrightarrow> draw_due burn env (Suc n) s = draw_due burn env n s"
proof (induction n arbitrary: s)
  case 0
  then show ?case by simp
next
  case (Suc n)
  show ?case
  proof (cases "draw_due_body burn env s")
    case (Inl res)
    then show ?thesis by (simp add: draw_due_Suc [of burn env _ s])
  next
    case (Inr s')
    with Suc.prems have "fst (draw_due burn env n s') \<noteq> OutOfFuel"
      by (simp add: draw_due_Suc [of burn env n s])
    from Suc.IH [OF this] show ?thesis
      by (simp add: draw_due_Suc [of burn env _ s] Inr)
  qed
qed

lemma draw_due_grows:
  "fst (draw_due burn env n s) = OutOfFuel \<Longrightarrow>
     \<exists>es. es \<noteq> [] \<and> trace (snd (draw_due burn env (Suc n) s)) = trace (snd (draw_due burn env n s)) @ es"
proof (induction n arbitrary: s)
  case 0
  show ?case
  proof (cases "draw_due_body burn env s")
    case (Inl res)
    obtain out s' where "res = (out, s')" by (cases res)
    with draw_due_body_Inl [of burn env s out s'] Inl show ?thesis
      by (simp add: draw_due_Suc [of burn env _ s])
  next
    case (Inr s')
    with draw_due_body_Inr [of burn env s s'] show ?thesis
      by (simp add: draw_due_Suc [of burn env _ s])
  qed
next
  case (Suc n)
  show ?case
  proof (cases "draw_due_body burn env s")
    case (Inl res)
    obtain out s' where "res = (out, s')" by (cases res)
    with draw_due_body_Inl [of burn env s out s'] Inl Suc.prems show ?thesis
      by (simp add: draw_due_Suc [of burn env n s])
  next
    case (Inr s')
    with Suc.prems have "fst (draw_due burn env n s') = OutOfFuel"
      by (simp add: draw_due_Suc [of burn env n s])
    from Suc.IH [OF this] show ?thesis
      by (simp add: draw_due_Suc [of burn env _ s] Inr)
  qed
qed

lemma draw_due_extends: "\<exists>es. trace (snd (draw_due burn env n s)) = trace s @ es"
proof (induction n arbitrary: s)
  case 0
  show ?case by simp
next
  case (Suc n)
  show ?case
  proof (cases "draw_due_body burn env s")
    case (Inl res)
    obtain out s' where "res = (out, s')" by (cases res)
    with draw_due_body_Inl [of burn env s out s'] Inl show ?thesis
      by (auto simp add: draw_due_Suc [of burn env n s])
  next
    case (Inr s')
    with draw_due_body_Inr [of burn env s s'] Suc.IH [of s'] show ?thesis
      by (auto simp add: draw_due_Suc [of burn env n s])
  qed
qed

lemma wait_step_extends: "\<exists>es. trace (snd (wait_step env s)) = trace s @ es"
  by (simp add: wait_step_def Let_def emit_def split: prod.split option.split)

lemma RunDrawLoop_with_extends:
  "\<exists>es. trace (snd (RunDrawLoop_with burn env n s)) = trace s @ es"
proof (induction n arbitrary: s)
  case 0
  show ?case by simp
next
  case (Suc n)
  define s1 where "s1 = emit (InterruptRead (fst (interrupt_received env (world s))))
                 (s\<lparr>world := snd (interrupt_received env (world s))\<rparr>)"
  have t1: "trace s1 = trace s @ [InterruptRead (fst (interrupt_received env (world s)))]"
    by (simp add: s1_def emit_def)
  obtain es2 where t2: "trace (snd (draw_due burn env n s1)) = trace s1 @ es2"
    using draw_due_extends [of burn env n s1] by blast
  obtain es3 where t3: "trace (snd (wait_step env (snd (draw_due burn env n s1)))) =
      trace (snd (draw_due burn env n s1)) @ es3"
    using wait_step_extends [of env "snd (draw_due burn env n s1)"] by blast
  obtain es4 where t4: "trace (snd (RunDrawLoop_with burn env n (snd (wait_step env (snd (draw_due burn env n s1)))))) =
      trace (snd (wait_step env (snd (draw_due burn env n s1)))) @ es4"
    using Suc.IH [of "snd (wait_step env (snd (draw_due burn env n s1)))"] by blast
  show ?case
    unfolding RunDrawLoop_with_Suc Let_def s1_def [symmetric]
    by (simp add: t1 t2 t3 t4 split: outcome.split sum.split)
qed

lemma RunDrawLoop_with_stable:
  "fst (RunDrawLoop_with burn env n s) \<noteq> OutOfFuel \<Longrightarrow>
     RunDrawLoop_with burn env (Suc n) s = RunDrawLoop_with burn env n s"
proof (induction n arbitrary: s)
  case 0
  then show ?case by simp
next
  case (Suc n)
  define s1 where "s1 = emit (InterruptRead (fst (interrupt_received env (world s))))
                 (s\<lparr>world := snd (interrupt_received env (world s))\<rparr>)"
  show ?case
  proof (cases "fst (interrupt_received env (world s))")
    case True
    then show ?thesis by (simp add: RunDrawLoop_with_Suc)
  next
    case False
    show ?thesis
    proof (cases "fst (draw_due burn env n s1)")
      case OutOfFuel
      with Suc.prems False show ?thesis
        by (simp add: RunDrawLoop_with_Suc [of burn env n s] Let_def s1_def)
    next
      case (Threw e)
      then have "draw_due burn env (Suc n) s1 = draw_due burn env n s1"
        by (intro draw_due_stable) simp
      with Threw False show ?thesis
        by (simp add: RunDrawLoop_with_Suc [of burn env _ s] Let_def s1_def)
    next
      case (Undefined e)
      then have "draw_due burn env (Suc n) s1 = draw_due burn env n s1"
        by (intro draw_due_stable) simp
      with Undefined False show ?thesis
        by (simp add: RunDrawLoop_with_Suc [of burn env _ s] Let_def s1_def)
    next
      case (Returned u)
      then have d: "draw_due burn env (Suc n) s1 = draw_due burn env n s1"
        by (intro draw_due_stable) simp
      show ?thesis
      proof (cases "fst (wait_step env (snd (draw_due burn env n s1)))")
        case (Inl e)
        with d Returned False show ?thesis
          by (simp add: RunDrawLoop_with_Suc [of burn env _ s] Let_def s1_def)
      next
        case (Inr v)
        with Suc.prems Returned False
        have "fst (RunDrawLoop_with burn env n (snd (wait_step env (snd (draw_due burn env n s1))))) \<noteq> OutOfFuel"
          by (simp add: RunDrawLoop_with_Suc [of burn env n s] Let_def s1_def)
        from Suc.IH [OF this] d Returned False Inr show ?thesis
          by (simp add: RunDrawLoop_with_Suc [of burn env _ s] Let_def s1_def)
      qed
    qed
  qed
qed

lemma RunDrawLoop_with_grows:
  "fst (RunDrawLoop_with burn env n s) = OutOfFuel \<Longrightarrow>
     \<exists>es. es \<noteq> [] \<and> trace (snd (RunDrawLoop_with burn env (Suc n) s))
                       = trace (snd (RunDrawLoop_with burn env n s)) @ es"
proof (induction n arbitrary: s)
  case 0
  show ?case
    by (simp add: RunDrawLoop_with_Suc Let_def emit_def)
next
  case (Suc n)
  define s1 where "s1 = emit (InterruptRead (fst (interrupt_received env (world s))))
                 (s\<lparr>world := snd (interrupt_received env (world s))\<rparr>)"
  show ?case
  proof (cases "fst (interrupt_received env (world s))")
    case True
    with Suc.prems show ?thesis
      by (simp add: RunDrawLoop_with_Suc [of burn env n s])
  next
    case False
    show ?thesis
    proof (cases "fst (draw_due burn env n s1)")
      case OutOfFuel
      from draw_due_grows [OF this] obtain es where
        es: "es \<noteq> []" "trace (snd (draw_due burn env (Suc n) s1)) = trace (snd (draw_due burn env n s1)) @ es"
        by blast
      have l: "RunDrawLoop_with burn env (Suc n) s = (OutOfFuel, snd (draw_due burn env n s1))"
        using OutOfFuel False
        by (simp add: RunDrawLoop_with_Suc [of burn env n s] Let_def s1_def)
      obtain es3 where t3: "trace (snd (wait_step env (snd (draw_due burn env (Suc n) s1)))) =
          trace (snd (draw_due burn env (Suc n) s1)) @ es3"
        using wait_step_extends [of env "snd (draw_due burn env (Suc n) s1)"] by blast
      obtain es4 where t4: "trace (snd (RunDrawLoop_with burn env (Suc n) (snd (wait_step env (snd (draw_due burn env (Suc n) s1)))))) =
          trace (snd (wait_step env (snd (draw_due burn env (Suc n) s1)))) @ es4"
        using RunDrawLoop_with_extends [of burn env "Suc n" "snd (wait_step env (snd (draw_due burn env (Suc n) s1)))"] by blast
      have s1': "emit (InterruptRead False) (s\<lparr>world := snd (interrupt_received env (world s))\<rparr>) = s1"
        using False by (simp add: s1_def)
      have "\<exists>es'. trace (snd (RunDrawLoop_with burn env (Suc (Suc n)) s))
                 = trace (snd (draw_due burn env (Suc n) s1)) @ es'"
        using False
        by (simp add: RunDrawLoop_with_Suc [of burn env "Suc n" s] Let_def s1' t3 t4
            split: outcome.split sum.split)
      then show ?thesis using es unfolding l by auto
    next
      case (Threw e)
      with Suc.prems False show ?thesis
        by (simp add: RunDrawLoop_with_Suc [of burn env n s] Let_def s1_def)
    next
      case (Undefined e)
      with Suc.prems False show ?thesis
        by (simp add: RunDrawLoop_with_Suc [of burn env n s] Let_def s1_def)
    next
      case (Returned u)
      then have d: "draw_due burn env (Suc n) s1 = draw_due burn env n s1"
        by (intro draw_due_stable) simp
      show ?thesis
      proof (cases "fst (wait_step env (snd (draw_due burn env n s1)))")
        case (Inl e)
        with Suc.prems Returned False show ?thesis
          by (simp add: RunDrawLoop_with_Suc [of burn env n s] Let_def s1_def)
      next
        case (Inr v)
        with Suc.prems Returned False
        have "fst (RunDrawLoop_with burn env n (snd (wait_step env (snd (draw_due burn env n s1))))) = OutOfFuel"
          by (simp add: RunDrawLoop_with_Suc [of burn env n s] Let_def s1_def)
        from Suc.IH [OF this] d Returned False Inr show ?thesis
          by (simp add: RunDrawLoop_with_Suc [of burn env _ s] Let_def s1_def)
      qed
    qed
  qed
qed

lemma RunDrawLoop_with_continues:
  "\<exists>es. trace (snd (RunDrawLoop_with burn env (Suc n) s)) = trace (snd (RunDrawLoop_with burn env n s)) @ es
      \<and> (fst (RunDrawLoop_with burn env n s) = OutOfFuel \<longrightarrow> es \<noteq> [])"
proof (cases "fst (RunDrawLoop_with burn env n s) = OutOfFuel")
  case True
  with RunDrawLoop_with_grows [OF True] show ?thesis by blast
next
  case False
  with RunDrawLoop_with_stable [OF False] show ?thesis by simp
qed


subsection \<open>The frames drawn have the size of the surface\<close>

text \<open>
  \<open>DrawFrame\<close> throws exactly when the sizes differ. So a call of \<open>DrawFrame\<close> on a frame
  of another size is the last event of a run, which has thrown.
\<close>

lemma DrawFrame_result:
  "(mismatch buffer (matrix s) \<longrightarrow> fst (DrawFrame env buffer s) = Inl SizeMismatch)
   \<and> (\<not> mismatch buffer (matrix s) \<longrightarrow>
        fst (DrawFrame env buffer s) = Inr () \<or> fst (DrawFrame env buffer s) = Inl SignedOverflow)"
  using DrawFrame_cases [where env = env and buffer = buffer and s = s]
  by (cases "fst (DrawFrame env buffer s)") (auto split: if_splits)

lemma DrawFrame_result_eq:
  assumes "DrawFrame env buffer s = (res, s')"
  shows "mismatch buffer (matrix s) \<longrightarrow> res = Inl SizeMismatch"
    and "\<not> mismatch buffer (matrix s) \<longrightarrow> res = Inr () \<or> res = Inl SignedOverflow"
    and "width (matrix s') = width (matrix s)" and "height (matrix s') = height (matrix s)"
    and "trace s' = trace s"
  using DrawFrame_result [of buffer s env] DrawFrame_width [of env buffer s]
    DrawFrame_height [of env buffer s] DrawFrame_trace [of env buffer s] assms
  by simp_all

lemma draw_step_sizes:
  assumes "drawn_ok (trace s) (matrix s)" and "matrix s3 = matrix s"
    and "trace s3 = trace s @ es" and "\<forall>buf'. Draw buf' \<notin> set es"
  shows "case (case DrawFrame env buf (emit (Draw buf) s3) of
                 (Inl e, s4) \<Rightarrow> Inl (failed e, s4)
               | (Inr u, s4) \<Rightarrow> Inr s4) of
           Inl (out, s') \<Rightarrow> ended_ok out s s'
         | Inr s' \<Rightarrow> ended_ok (Returned ()) s s'"
proof -
  obtain res s4 where d: "DrawFrame env buf (emit (Draw buf) s3) = (res, s4)"
    by (cases "DrawFrame env buf (emit (Draw buf) s3)")
  note r = DrawFrame_result_eq [OF d, unfolded emit_simps assms(2,3)]
  show ?thesis
  proof (cases "mismatch buf (matrix s)")
    case True
    with r assms(1,4) show ?thesis
      by (auto simp: d ended_ok_def drawn_ok_iff butlast_append failed_simps)
  next
    case False
    with r assms(1,4) show ?thesis
      by (auto simp: d ended_ok_def drawn_ok_iff failed_simps)
  qed
qed

lemma draw_due_body_sizes:
  assumes "drawn_ok (trace s) (matrix s)"
  shows "case draw_due_body burn env s of
           Inl (out, s') \<Rightarrow> ended_ok out s s'
         | Inr s' \<Rightarrow> ended_ok (Returned ()) s s'"
proof -
  obtain age w1 where a: "AgeOfOldestBuffer env (world s) = (age, w1)"
    by (cases "AgeOfOldestBuffer env (world s)")
  obtain buffer w2 where p: "PopOldestBuffer env w1 = (buffer, w2)"
    by (cases "PopOldestBuffer env w1")
  obtain age2 w3 where a2: "AgeOfOldestBuffer env w2 = (age2, w3)"
    by (cases "AgeOfOldestBuffer env w2")
  show ?thesis
  proof (cases "age \<le> 0")
    case False
    with assms show ?thesis
      by (simp add: draw_due_body_def a emit_def ended_ok_def drawn_ok_iff)
  next
    case True
    show ?thesis
    proof (cases buffer)
      case None
      with assms True show ?thesis
        by (simp add: draw_due_body_def a p emit_def ended_ok_def drawn_ok_iff)
    next
      case (Some buf)
      show ?thesis
      proof (cases "burn \<and> age2 \<le> 0")
        case True
        with assms \<open>age \<le> 0\<close> show ?thesis
          by (simp add: draw_due_body_def a p a2 Some emit_def ended_ok_def drawn_ok_iff)
      next
        case False
        let ?s3 = "if burn then emit (AgeBurn buf age2)
                      (emit (Pop (Some buf)) (emit (AgeCheck age) (s\<lparr>world := w1\<rparr>)\<lparr>world := w2\<rparr>)\<lparr>world := w3\<rparr>)
                   else emit (Pop (Some buf)) (emit (AgeCheck age) (s\<lparr>world := w1\<rparr>)\<lparr>world := w2\<rparr>)"
        have b: "draw_due_body burn env s =
            (case DrawFrame env buf (emit (Draw buf) ?s3) of
               (Inl e, s4) \<Rightarrow> Inl (failed e, s4)
             | (Inr u, s4) \<Rightarrow> Inr s4)"
          using False \<open>age \<le> 0\<close>
          by (simp add: draw_due_body_def a p a2 Some Let_def emit_simps split: prod.split sum.split)
        have "matrix ?s3 = matrix s" by (simp add: emit_def)
        moreover have "trace ?s3 = trace s @ (if burn then [AgeCheck age, Pop (Some buf), AgeBurn buf age2]
                                              else [AgeCheck age, Pop (Some buf)])"
          by (simp add: emit_def)
        moreover have "\<forall>buf'. Draw buf' \<notin> set (if burn then [AgeCheck age, Pop (Some buf), AgeBurn buf age2]
                                              else [AgeCheck age, Pop (Some buf)])"
          by simp
        ultimately show ?thesis
          unfolding b by (rule draw_step_sizes [OF assms])
      qed
    qed
  qed
qed

lemma ended_ok_trans:
  assumes "ended_ok (Returned u) s s'" and "ended_ok out s' s''"
  shows "ended_ok out s s''"
  using assms by (auto simp: ended_ok_def drawn_ok_iff mismatch_def split: outcome.splits)

lemma ended_ok_start:
  "ended_ok (Returned u) s s' \<Longrightarrow> drawn_ok (trace s') (matrix s')"
  by (simp add: ended_ok_def drawn_ok_iff mismatch_def)

lemma draw_due_sizes:
  assumes "drawn_ok (trace s) (matrix s)"
  shows "ended_ok (fst (draw_due burn env n s)) s (snd (draw_due burn env n s))"
  using assms
proof (induction n arbitrary: s)
  case 0
  then show ?case by (simp add: ended_ok_def)
next
  case (Suc n)
  show ?case
  proof (cases "draw_due_body burn env s")
    case (Inl res)
    with draw_due_body_sizes [OF Suc.prems, of burn env] show ?thesis
      by (simp add: draw_due_Suc split: prod.splits)
  next
    case (Inr s')
    with draw_due_body_sizes [OF Suc.prems, of burn env]
    have e: "ended_ok (Returned ()) s s'" by simp
    from ended_ok_trans [OF e Suc.IH [OF ended_ok_start [OF e]]] Inr show ?thesis
      by (simp add: draw_due_Suc)
  qed
qed

lemma wait_step_sizes:
  assumes "drawn_ok (trace s) (matrix s)"
  shows "ended_ok (Returned ()) s (snd (wait_step env s))"
  using assms
  by (simp add: wait_step_def Let_def emit_def ended_ok_def drawn_ok_iff
      split: prod.split option.split)

lemma ended_ok_Undefined:
  "ended_ok (Returned u) s s' \<Longrightarrow> ended_ok (Undefined e) s s'"
  by (simp add: ended_ok_def)

lemma RunDrawLoop_with_sizes:
  assumes "drawn_ok (trace s) (matrix s)"
  shows "ended_ok (fst (RunDrawLoop_with burn env n s)) s (snd (RunDrawLoop_with burn env n s))"
  using assms
proof (induction n arbitrary: s)
  case 0
  then show ?case by (simp add: ended_ok_def)
next
  case (Suc n)
  define s1 where "s1 = emit (InterruptRead (fst (interrupt_received env (world s))))
                 (s\<lparr>world := snd (interrupt_received env (world s))\<rparr>)"
  have e1: "ended_ok (Returned ()) s s1"
    using Suc.prems by (simp add: s1_def emit_def ended_ok_def drawn_ok_iff)
  note e2 = draw_due_sizes [OF ended_ok_start [OF e1], of burn env n]
  show ?case
  proof (cases "fst (interrupt_received env (world s))")
    case True
    with e1 show ?thesis
      by (simp add: RunDrawLoop_with_Suc Let_def s1_def ended_ok_def)
  next
    case False
    show ?thesis
    proof (cases "fst (draw_due burn env n s1)")
      case (Returned u)
      with e2 have e2': "ended_ok (Returned ()) s1 (snd (draw_due burn env n s1))"
        by (simp add: ended_ok_def)
      note e3 = wait_step_sizes [OF ended_ok_start [OF e2'], of env]
      show ?thesis
      proof (cases "fst (wait_step env (snd (draw_due burn env n s1)))")
        case (Inl e)
        from ended_ok_Undefined [OF ended_ok_trans [OF e1 ended_ok_trans [OF e2' e3]], of e]
          Returned False Inl
        show ?thesis
          by (simp add: RunDrawLoop_with_Suc [of burn env n s] Let_def s1_def)
      next
        case (Inr v)
        note e4 = Suc.IH [OF ended_ok_start [OF e3], of ]
        from ended_ok_trans [OF e1 ended_ok_trans [OF e2' ended_ok_trans [OF e3 e4]]] Returned False Inr
        show ?thesis
          by (simp add: RunDrawLoop_with_Suc [of burn env n s] Let_def s1_def)
      qed
    next
      case (Threw e)
      with ended_ok_trans [OF e1 e2] False show ?thesis
        by (simp add: RunDrawLoop_with_Suc [of burn env n s] Let_def s1_def ended_ok_def)
    next
      case (Undefined e)
      with ended_ok_trans [OF e1 e2] False show ?thesis
        by (simp add: RunDrawLoop_with_Suc [of burn env n s] Let_def s1_def ended_ok_def)
    next
      case OutOfFuel
      with ended_ok_trans [OF e1 e2] False show ?thesis
        by (simp add: RunDrawLoop_with_Suc [of burn env n s] Let_def s1_def ended_ok_def)
    qed
  qed
qed

lemma run_draw:
  assumes "trace s = []" and "j < length (trace (snd (RunDrawLoop_with burn env fuel s)))"
    and "trace (snd (RunDrawLoop_with burn env fuel s)) ! j = Draw buf"
  shows "int (length (ColorData buf)) = width (matrix s) * height (matrix s)
       \<or> Suc j = length (trace (snd (RunDrawLoop_with burn env fuel s)))
         \<and> fst (RunDrawLoop_with burn env fuel s) = Threw SizeMismatch"
proof (cases "mismatch buf (matrix s)")
  case False
  then show ?thesis by (simp add: mismatch_def)
next
  case True
  let ?r = "RunDrawLoop_with burn env fuel s"
  have "drawn_ok (trace s) (matrix s)" using assms(1) by (simp add: drawn_ok_iff)
  from RunDrawLoop_with_sizes [OF this, of burn env fuel]
  have e: "ended_ok (fst ?r) s (snd ?r)" .
  have mem: "Draw buf \<in> set (trace (snd ?r))"
    using assms(2,3) by (metis nth_mem)
  obtain e' where thr: "fst ?r = Threw e'"
    using e mem True by (cases "fst ?r") (auto simp: ended_ok_def drawn_ok_iff)
  with e True have "Draw buf \<notin> set (butlast (trace (snd ?r)))"
    by (auto simp: ended_ok_def drawn_ok_iff)
  then have "\<not> j < length (butlast (trace (snd ?r)))"
    using assms(3) by (metis nth_butlast nth_mem)
  with assms(2) have last: "Suc j = length (trace (snd ?r))" by simp
  from run_facts(3) [OF assms(1), of burn env fuel] thr have "e' = SizeMismatch"
    by (simp add: outer_end_iff)
  with thr last show ?thesis by simp
qed

subsection \<open>What a run puts on the surface\<close>

lemma drawn_simps [simp]:
  "drawn [] = []" "drawn (Draw buf # t) = buf # drawn t"
  "drawn (InterruptRead v # t) = drawn t" "drawn (AgeCheck a # t) = drawn t"
  "drawn (Pop p # t) = drawn t" "drawn (AgeBurn buf a # t) = drawn t"
  "drawn (AgeDelay a # t) = drawn t" "drawn (Sleep d # t) = drawn t"
  "drawn (t @ u) = drawn t @ drawn u"
  by (simp_all add: drawn_def map_filter_def)

lemma popped_simps [simp]:
  "popped [] = []" "popped (Pop (Some buf) # t) = buf # popped t" "popped (Pop None # t) = popped t"
  "popped (InterruptRead v # t) = popped t" "popped (AgeCheck a # t) = popped t"
  "popped (Draw buf # t) = popped t" "popped (AgeBurn buf a # t) = popped t"
  "popped (AgeDelay a # t) = popped t" "popped (Sleep d # t) = popped t"
  "popped (t @ u) = popped t @ popped u"
  by (simp_all add: popped_def map_filter_def)

lemma kept_simps [simp]:
  "kept [] = []" "kept (AgeBurn buf a # t) = (if a \<le> 0 then kept t else buf # kept t)"
  "kept (InterruptRead v # t) = kept t" "kept (AgeCheck a # t) = kept t"
  "kept (Pop p # t) = kept t" "kept (Draw buf # t) = kept t"
  "kept (AgeDelay a # t) = kept t" "kept (Sleep d # t) = kept t"
  "kept (t @ u) = kept t @ kept u"
  by (simp_all add: kept_def map_filter_def)

lemma rendered_iff:
  "rendered out s s' \<longleftrightarrow>
     width (matrix s') = width (matrix s) \<and> height (matrix s') = height (matrix s)
   \<and> (\<exists>es. trace s' = trace s @ es
         \<and> (out \<noteq> Undefined SignedOverflow \<longrightarrow>
              calls (matrix s') =
                calls (matrix s) @ concat (map (rendering (width (matrix s)) (height (matrix s))) (drawn es))))"
proof -
  have "trace s' = trace s @ drop (length (trace s)) (trace s')"
    if "take (length (trace s)) (trace s') = trace s"
    using append_take_drop_id [of "length (trace s)" "trace s'"] that by simp
  then show ?thesis
    unfolding rendered_def by auto
qed

lemma rendered_trans:
  assumes "rendered (Returned u) s s'" and "rendered out s' s''"
  shows "rendered out s s''"
  using assms unfolding rendered_iff by auto

lemma rendered_weaken:
  "rendered (Returned u) s s' \<Longrightarrow> rendered out s s'"
  unfolding rendered_iff by auto

lemma rendered_emit:
  assumes "matrix s' = matrix s" and "trace s' = trace s @ es" and "drawn es = []"
  shows "rendered out s s'"
  using assms unfolding rendered_iff by simp

lemma draw_step_rendered:
  assumes "matrix s3 = matrix s" and "trace s3 = trace s @ es" and "drawn es = []"
  shows "case (case DrawFrame env buf (emit (Draw buf) s3) of
                 (Inl e, s4) \<Rightarrow> Inl (failed e, s4)
               | (Inr u, s4) \<Rightarrow> Inr s4) of
           Inl (out, s') \<Rightarrow> rendered out s s'
         | Inr s' \<Rightarrow> rendered (Returned ()) s s'"
proof -
  obtain res s4 where d: "DrawFrame env buf (emit (Draw buf) s3) = (res, s4)"
    by (cases "DrawFrame env buf (emit (Draw buf) s3)")
  note r = DrawFrame_result_eq(3-5) [OF d, unfolded emit_simps assms(1,2)]
  note c = DrawFrame_cases [where env = env and buffer = buf and s = "emit (Draw buf) s3",
      unfolded d emit_simps assms(1), simplified]
  have t: "trace s4 = trace s @ (es @ [Draw buf])" using r(3) by simp
  have dr: "drawn (es @ [Draw buf]) = [buf]" using assms(3) by simp
  show ?thesis
  proof (cases res)
    case (Inr u)
    with c have "calls (matrix s4) = calls (matrix s) @ rendering (width (matrix s)) (height (matrix s)) buf"
      by (simp add: rendering_def mismatch_def)
    with r(1,2) t dr show ?thesis
      unfolding d Inr rendered_iff by (simp del: drawn_simps(9))
  next
    case (Inl e)
    show ?thesis
    proof (cases "mismatch buf (matrix s)")
      case True
      with c Inl have "e = SizeMismatch" "matrix s4 = matrix s" by simp_all
      moreover from True have "rendering (width (matrix s)) (height (matrix s)) buf = []"
        by (simp add: rendering_def mismatch_def)
      ultimately show ?thesis
        using t dr unfolding d Inl rendered_iff
        by (simp add: failed_simps del: drawn_simps(9))
    next
      case False
      with c Inl have "e = SignedOverflow" by simp
      with r(1,2) t show ?thesis
        unfolding d Inl rendered_iff by (simp add: failed_simps)
    qed
  qed
qed


lemma rendered_events:
  "drawn es = [] \<Longrightarrow> rendered out s (s\<lparr>world := w, trace := trace s @ es\<rparr>)"
  by (simp add: rendered_def)

lemma draw_due_body_rendered:
  "case draw_due_body burn env s of
     Inl (out, s') \<Rightarrow> rendered out s s'
   | Inr s' \<Rightarrow> rendered (Returned ()) s s'"
proof -
  obtain age w1 where a: "AgeOfOldestBuffer env (world s) = (age, w1)"
    by (cases "AgeOfOldestBuffer env (world s)")
  obtain buffer w2 where p: "PopOldestBuffer env w1 = (buffer, w2)"
    by (cases "PopOldestBuffer env w1")
  obtain age2 w3 where a2: "AgeOfOldestBuffer env w2 = (age2, w3)"
    by (cases "AgeOfOldestBuffer env w2")
  show ?thesis
  proof (cases "age \<le> 0")
    case False
    then show ?thesis
      by (simp add: draw_due_body_def a emit_def rendered_events)
  next
    case True
    show ?thesis
    proof (cases buffer)
      case None
      with True show ?thesis
        by (simp add: draw_due_body_def a p emit_def rendered_events)
    next
      case (Some buf)
      show ?thesis
      proof (cases "burn \<and> age2 \<le> 0")
        case True
        with \<open>age \<le> 0\<close> show ?thesis
          by (simp add: draw_due_body_def a p a2 Some emit_def rendered_events)
      next
        case False
        let ?s3 = "if burn then emit (AgeBurn buf age2)
                      (emit (Pop (Some buf)) (emit (AgeCheck age) (s\<lparr>world := w1\<rparr>)\<lparr>world := w2\<rparr>)\<lparr>world := w3\<rparr>)
                   else emit (Pop (Some buf)) (emit (AgeCheck age) (s\<lparr>world := w1\<rparr>)\<lparr>world := w2\<rparr>)"
        have b: "draw_due_body burn env s =
            (case DrawFrame env buf (emit (Draw buf) ?s3) of
               (Inl e, s4) \<Rightarrow> Inl (failed e, s4)
             | (Inr u, s4) \<Rightarrow> Inr s4)"
          using False \<open>age \<le> 0\<close>
          by (simp add: draw_due_body_def a p a2 Some Let_def emit_simps split: prod.split sum.split)
        have "matrix ?s3 = matrix s" by (simp add: emit_def)
        moreover have "trace ?s3 = trace s @ (if burn then [AgeCheck age, Pop (Some buf), AgeBurn buf age2]
                                              else [AgeCheck age, Pop (Some buf)])"
          by (simp add: emit_def)
        moreover have "drawn (if burn then [AgeCheck age, Pop (Some buf), AgeBurn buf age2]
                              else [AgeCheck age, Pop (Some buf)]) = []"
          by simp
        ultimately show ?thesis
          unfolding b by (rule draw_step_rendered)
      qed
    qed
  qed
qed

lemma rendered_start: "rendered out s s"
  by (simp add: rendered_def)

lemma draw_due_rendered:
  "rendered (fst (draw_due burn env n s)) s (snd (draw_due burn env n s))"
proof (induction n arbitrary: s)
  case 0
  show ?case by (simp add: rendered_start)
next
  case (Suc n)
  show ?case
  proof (cases "draw_due_body burn env s")
    case (Inl res)
    with draw_due_body_rendered [where burn = burn and env = env and s = s] show ?thesis
      by (simp add: draw_due_Suc split: prod.splits)
  next
    case (Inr s')
    with draw_due_body_rendered [where burn = burn and env = env and s = s]
    have e: "rendered (Returned ()) s s'" by simp
    from rendered_trans [OF e Suc.IH [of s']] Inr show ?thesis
      by (simp add: draw_due_Suc)
  qed
qed

lemma wait_step_rendered: "rendered (Returned ()) s (snd (wait_step env s))"
  by (simp add: wait_step_def Let_def emit_def rendered_events split: prod.split option.split)

lemma RunDrawLoop_with_rendered:
  "rendered (fst (RunDrawLoop_with burn env n s)) s (snd (RunDrawLoop_with burn env n s))"
proof (induction n arbitrary: s)
  case 0
  show ?case by (simp add: rendered_start)
next
  case (Suc n)
  define s1 where "s1 = emit (InterruptRead (fst (interrupt_received env (world s))))
                 (s\<lparr>world := snd (interrupt_received env (world s))\<rparr>)"
  have e1: "rendered (Returned ()) s s1"
    by (rule rendered_emit [of _ _ "[InterruptRead (fst (interrupt_received env (world s)))]"])
       (simp_all add: s1_def emit_def)
  note e2 = draw_due_rendered [of burn env n s1]
  show ?case
  proof (cases "fst (interrupt_received env (world s))")
    case True
    with rendered_weaken [OF e1] show ?thesis
      by (simp add: RunDrawLoop_with_Suc Let_def s1_def)
  next
    case False
    show ?thesis
    proof (cases "fst (draw_due burn env n s1)")
      case (Returned u)
      with e2 have e2': "rendered (Returned ()) s1 (snd (draw_due burn env n s1))"
        by (simp add: rendered_def)
      note e3 = wait_step_rendered [of "snd (draw_due burn env n s1)" env]
      note e13 = rendered_trans [OF e1 rendered_trans [OF e2' e3]]
      show ?thesis
      proof (cases "fst (wait_step env (snd (draw_due burn env n s1)))")
        case (Inl e)
        have "e = ConversionOutOfRange"
          using Inl by (simp add: wait_step_def Let_def split: prod.splits option.splits)
        with rendered_weaken [OF e13] Returned False Inl show ?thesis
          by (simp add: RunDrawLoop_with_Suc [of burn env n s] Let_def s1_def)
      next
        case (Inr v)
        note e4 = Suc.IH [of "snd (wait_step env (snd (draw_due burn env n s1)))"]
        from rendered_trans [OF e13 e4] Returned False Inr
        show ?thesis
          by (simp add: RunDrawLoop_with_Suc [of burn env n s] Let_def s1_def)
      qed
    next
      case (Threw e)
      with rendered_trans [OF e1 e2] False show ?thesis
        by (simp add: RunDrawLoop_with_Suc [of burn env n s] Let_def s1_def rendered_def)
    next
      case (Undefined e)
      with rendered_trans [OF e1 e2] False show ?thesis
        by (simp add: RunDrawLoop_with_Suc [of burn env n s] Let_def s1_def rendered_def)
    next
      case OutOfFuel
      with rendered_trans [OF e1 e2] False show ?thesis
        by (simp add: RunDrawLoop_with_Suc [of burn env n s] Let_def s1_def rendered_def)
    qed
  qed
qed

text \<open>
  In a trace in which every event is followed as the loop prescribes, the frames drawn
  are the frames popped (without the discard-backlog policy) or the frames the policy
  has kept (with it): a frame is drawn right after such an event, and only then.
\<close>

lemma drawn_popped:
  assumes "successively (follows False) t"
  shows "drawn (tl t) = popped (butlast t)"
  using assms
proof (induction t rule: induct_list012)
  case (3 e e' t)
  have "(\<exists>buf. e' = Draw buf) \<longleftrightarrow> (\<exists>buf. e = Pop (Some buf))"
    "e = Pop (Some buf) \<Longrightarrow> e' = Draw buf" for buf
    using 3(3) by (cases "(False, e, e')" rule: follows.cases; auto split: if_splits option.splits)+
  with 3 show ?case
    by (cases e; cases e') (auto split: option.splits)
qed simp_all

lemma drawn_kept:
  assumes "successively (follows True) t"
  shows "drawn (tl t) = kept (butlast t)"
  using assms
proof (induction t rule: induct_list012)
  case (3 e e' t)
  have "(\<exists>buf. e' = Draw buf) \<longleftrightarrow> (\<exists>buf a. e = AgeBurn buf a \<and> \<not> a \<le> 0)"
    "e = AgeBurn buf a \<Longrightarrow> \<not> a \<le> 0 \<Longrightarrow> e' = Draw buf" for buf a
    using 3(3) by (cases "(True, e, e')" rule: follows.cases; auto split: if_splits option.splits)+
  with 3 show ?case
    by (cases e; cases e') (auto split: option.splits)
qed simp_all

lemma run_drawn:
  assumes "trace s = []"
  shows "drawn (trace (snd (RunDrawLoop_with False env fuel s)))
           = popped (trace (snd (RunDrawLoop_with False env fuel s)))"
    and "drawn (trace (snd (RunDrawLoop_with True env fuel s)))
           = kept (trace (snd (RunDrawLoop_with True env fuel s)))"
proof -
  have first: "drawn t = drawn (tl t)" if "t \<noteq> [] \<Longrightarrow> \<exists>v. t ! 0 = InterruptRead v" for t
    using that by (cases t) auto
  let ?t = "trace (snd (RunDrawLoop_with False env fuel s))"
  let ?u = "trace (snd (RunDrawLoop_with True env fuel s))"
  have "popped ?t = popped (butlast ?t)"
  proof (cases "?t = []")
    case False
    define k where "k = length ?t - 1"
    from False have k: "k < length ?t" "\<not> Suc k < length ?t" "?t ! k = last ?t"
      by (simp_all add: k_def last_conv_nth)
    have np: "False" if l: "last ?t = Pop (Some buf)" for buf
    proof -
      from k(3) l have e: "?t ! k = Pop (Some buf)" by simp
      from run_not_last [OF assms k(1)] k(2) show False by (simp add: e)
    qed
    have "popped [last ?t] = []"
    proof (cases "last ?t")
      case (Pop p)
      with np show ?thesis by (cases p) auto
    qed auto
    then have "popped (butlast ?t @ [last ?t]) = popped (butlast ?t)"
      by (simp del: popped_simps(2-9))
    with False show ?thesis by simp
  qed simp
  with drawn_popped [OF run_facts(1) [OF assms, of False env fuel]]
    first [OF run_facts(2) [OF assms, of False env fuel]]
  show "drawn ?t = popped ?t" by simp
  have "kept ?u = kept (butlast ?u)"
  proof (cases "?u = []")
    case False
    define k where "k = length ?u - 1"
    from False have k: "k < length ?u" "\<not> Suc k < length ?u" "?u ! k = last ?u"
      by (simp_all add: k_def last_conv_nth)
    have "a \<le> 0" if l: "last ?u = AgeBurn buf a" for buf a
    proof (rule ccontr)
      assume n: "\<not> a \<le> 0"
      from k(3) l have e: "?u ! k = AgeBurn buf a" by simp
      from run_not_last [OF assms k(1)] k(2) show False by (simp add: e n)
    qed
    then have "kept [last ?u] = []" by (cases "last ?u") auto
    then have "kept (butlast ?u @ [last ?u]) = kept (butlast ?u)"
      by (simp del: kept_simps(2-8))
    with False show ?thesis by simp
  qed simp
  with drawn_kept [OF run_facts(1) [OF assms, of True env fuel]]
    first [OF run_facts(2) [OF assms, of True env fuel]]
  show "drawn ?u = kept ?u" by simp
qed

lemma run_rendered:
  assumes "trace s = []" and "fst (RunDrawLoop_with burn env fuel s) \<noteq> Undefined SignedOverflow"
  shows "calls_made (matrix s) (matrix (snd (RunDrawLoop_with burn env fuel s))) =
           concat (map (rendering (width (matrix s)) (height (matrix s)))
                       (drawn (trace (snd (RunDrawLoop_with burn env fuel s)))))"
  using RunDrawLoop_with_rendered [of burn env fuel s] assms
  by (simp add: rendered_def calls_made_def)


subsection \<open>The claims about RunDrawLoop\<close>

text \<open>
  The theorems below are about a run that starts with an empty trace, so that the trace
  afterwards holds the events of this run and nothing else. They hold for every
  environment, every amount of fuel and every starting state of the statics and of the
  surface.
\<close>

text \<open>
  Claim C5, as stated, fails: the delay is converted to \<open>int64_t\<close> before the loop
  sleeps, which discards the fraction of a microsecond. When the oldest buffer is due in
  1/128 s, \<open>min(kMaximumWait, age * 1000000)\<close> is 7812.5 and the loop sleeps 7812
  microseconds.
\<close>

theorem RunDrawLoop_sleep_counterexample:
  "trace (snd (RunDrawLoop scripted 4 loop_test)) ! 7 = AgeDelay (Finite (1 / 128))
   \<and> trace (snd (RunDrawLoop scripted 4 loop_test)) ! 8 = Sleep 7812
   \<and> std_min kMaximumWait (double_mul (Finite (1 / 128)) (Finite 1000000)) = Finite (15625 / 2)
   \<and> real_of_int 7812 \<noteq> max 0 (15625 / 2)"
  by (simp add: loop_test_run product_simps)

text \<open>
  Claim C5, amended. The age read of the delay computation comes right after an age check
  that found nothing due. With \<open>delay\<close> the double \<open>min(kMaximumWait, age * 1000000)\<close>, the
  product rounded as doubles are, converted to \<open>int64_t\<close> by truncation towards zero: the
  loop sleeps \<open>delay\<close> microseconds right after that read when \<open>delay\<close> is positive, and
  does not sleep at all otherwise (the next event, if any, is the read of the interrupt
  flag); when the double is outside the range of \<open>int64_t\<close> the conversion is undefined
  behaviour and the run ends there. So every sleep is a positive whole number of
  microseconds, at most the double \<open>min(kMaximumWait, age * 1000000)\<close> and less than one
  microsecond below it, and never longer than \<open>kMaximumWait\<close>.
\<close>

theorem RunDrawLoop_sleep:
  assumes "trace s = []"
  shows "(let out = fst (RunDrawLoop env fuel s); t = trace (snd (RunDrawLoop env fuel s))
          in \<forall>i<length t.
               (\<forall>a. t ! i = AgeDelay a \<longrightarrow>
                   0 < i \<and> (\<exists>a0. \<not> a0 \<le> 0 \<and> t ! (i - 1) = AgeCheck a0)
                 \<and> (case to_int64 (std_min kMaximumWait (double_mul a (Finite 1000000))) of
                      None \<Rightarrow> Suc i = length t \<and> out = Undefined ConversionOutOfRange
                    | Some d \<Rightarrow>
                        if 0 < d then Suc i < length t \<and> t ! Suc i = Sleep d
                        else Suc i < length t \<longrightarrow> (\<exists>v. t ! Suc i = InterruptRead v)))
             \<and> (\<forall>d. t ! i = Sleep d \<longrightarrow>
                   0 < i
                 \<and> (\<exists>a v. t ! (i - 1) = AgeDelay a
                        \<and> to_int64 (std_min kMaximumWait (double_mul a (Finite 1000000))) = Some d
                        \<and> std_min kMaximumWait (double_mul a (Finite 1000000)) = Finite v
                        \<and> real_of_int d \<le> v \<and> v < real_of_int d + 1)
                 \<and> 0 < d \<and> d \<le> 10000))"
proof -
  let ?r = "RunDrawLoop_with False env fuel s"
  let ?t = "trace (snd ?r)"
  have delay: "0 < i \<and> (\<exists>a0. \<not> a0 \<le> 0 \<and> ?t ! (i - 1) = AgeCheck a0)
      \<and> (case to_int64 (std_min kMaximumWait (double_mul a (Finite 1000000))) of
            None \<Rightarrow> Suc i = length ?t \<and> fst ?r = Undefined ConversionOutOfRange
          | Some d \<Rightarrow>
              if 0 < d then Suc i < length ?t \<and> ?t ! Suc i = Sleep d
              else Suc i < length ?t \<longrightarrow> (\<exists>v. ?t ! Suc i = InterruptRead v))"
    if "i < length ?t" and "?t ! i = AgeDelay a" for i a
  proof -
    have prev: "0 < i \<and> (\<exists>a0. \<not> a0 \<le> 0 \<and> ?t ! (i - 1) = AgeCheck a0)"
      using run_prev [OF assms that(1)] that(2) by (auto dest: follows_AgeDelay)
    have nxt: "Suc i < length ?t \<Longrightarrow> follows False (AgeDelay a) (?t ! Suc i)"
      using run_next [OF assms, of i False env fuel] that(2) by simp
    show ?thesis
    proof (cases "to_int64 (std_min kMaximumWait (double_mul a (Finite 1000000)))")
      case None
      with nxt have n: "\<not> Suc i < length ?t" by auto
      with that(1) have "Suc i = length ?t" by simp
      moreover from run_last [OF assms that(1) n] that(2) None
      have "fst ?r = Undefined ConversionOutOfRange" by auto
      ultimately show ?thesis using prev None by simp
    next
      case (Some d)
      show ?thesis
      proof (cases "0 < d")
        case True
        have "Suc i < length ?t"
          using that(2) True Some by (intro run_not_last [OF assms that(1)]) auto
        with nxt prev True Some show ?thesis by simp
      next
        case False
        with nxt prev Some show ?thesis by simp
      qed
    qed
  qed
  have sleep: "0 < i
      \<and> (\<exists>a v. ?t ! (i - 1) = AgeDelay a
             \<and> to_int64 (std_min kMaximumWait (double_mul a (Finite 1000000))) = Some d
             \<and> std_min kMaximumWait (double_mul a (Finite 1000000)) = Finite v
             \<and> real_of_int d \<le> v \<and> v < real_of_int d + 1)
      \<and> 0 < d \<and> d \<le> 10000"
    if "i < length ?t" and "?t ! i = Sleep d" for i d
  proof -
    from run_prev [OF assms that(1)] that(2)
    have i: "0 < i" and "follows False (?t ! (i - 1)) (Sleep d)" by auto
    from follows_Sleep [OF this(2)] obtain a where
      a: "?t ! (i - 1) = AgeDelay a"
        "to_int64 (std_min kMaximumWait (double_mul a (Finite 1000000))) = Some d" "0 < d"
      by blast
    from positive_delay [OF a(2,3)] obtain v where
      v: "std_min kMaximumWait (double_mul a (Finite 1000000)) = Finite v"
        "real_of_int d \<le> v" "v < real_of_int d + 1" "v \<le> 10000"
      by blast
    from v(2,4) have "real_of_int d \<le> 10000" by linarith
    then have "d \<le> 10000" by linarith
    with i a v show ?thesis by blast
  qed
  show ?thesis
    unfolding RunDrawLoop_def burnExtraFrames_def Let_def using delay sleep by blast
qed

theorem RunDrawLoop_sleep_witness:
  "trace loop_test = [] \<and> trace micro_test = [] \<and> trace stale_test = []
   \<and> trace (snd (RunDrawLoop scripted 4 loop_test)) ! 7 = AgeDelay (Finite (1 / 128))
   \<and> trace (snd (RunDrawLoop scripted 4 loop_test)) ! Suc 7 = Sleep 7812
   \<and> trace (snd (RunDrawLoop scripted 4 loop_test)) ! 12 = Sleep 10000
   \<and> trace (snd (RunDrawLoop scripted 4 loop_test)) ! (12 - 1) = AgeDelay (Finite 1)
   \<and> trace (snd (RunDrawLoop scripted 2 micro_test)) ! 2
        = AgeDelay (Finite (4722366482869645 / 4722366482869645213696))
   \<and> trace (snd (RunDrawLoop scripted 2 micro_test)) ! Suc 2 = Sleep 1
   \<and> trace (snd (RunDrawLoop scripted 2 stale_test)) ! 2 = AgeDelay NegInf
   \<and> Suc 2 = length (trace (snd (RunDrawLoop scripted 2 stale_test)))
   \<and> fst (RunDrawLoop scripted 2 stale_test) = Undefined ConversionOutOfRange"
proof -
  note t = RunDrawLoop_sleep [OF loop_test_trace, of scripted 4, unfolded Let_def, rule_format]
  note u = RunDrawLoop_sleep [OF micro_test_trace, of scripted 2, unfolded Let_def, rule_format]
  note v = RunDrawLoop_sleep [OF stale_test_trace, of scripted 2, unfolded Let_def, rule_format]
  show ?thesis
    using t [of 7] t [of 12] u [of 2] v [of 2]
    by (simp add: loop_test_run micro_test_run stale_test_run loop_test_trace micro_test_trace
        stale_test_trace delay_simps)
qed

text \<open>
  Claim C6. Every call of \<open>PopOldestBuffer\<close> comes right after an age check that reported
  an age of at most 0, and every call of \<open>DrawFrame\<close> right after the pop that returned
  its frame: nothing is popped or rendered after a positive age. Every age check that
  reports an age of at most 0 is followed by a pop at once; one that reports a positive
  age is followed by the age read of the delay computation.
\<close>

theorem RunDrawLoop_gating:
  assumes "trace s = []"
  shows "(let t = trace (snd (RunDrawLoop env fuel s))
          in \<forall>i<length t.
               (\<forall>p. t ! i = Pop p \<longrightarrow> 0 < i \<and> (\<exists>a. a \<le> 0 \<and> t ! (i - 1) = AgeCheck a))
             \<and> (\<forall>buf. t ! i = Draw buf \<longrightarrow> 0 < i \<and> t ! (i - 1) = Pop (Some buf))
             \<and> (\<forall>a. t ! i = AgeCheck a \<longrightarrow>
                   Suc i < length t
                 \<and> (if a \<le> 0 then \<exists>p. t ! Suc i = Pop p else \<exists>a'. t ! Suc i = AgeDelay a')))"
proof -
  let ?t = "trace (snd (RunDrawLoop_with False env fuel s))"
  have pop: "0 < i \<and> (\<exists>a. a \<le> 0 \<and> ?t ! (i - 1) = AgeCheck a)"
    if "i < length ?t" and "?t ! i = Pop p" for i p
    using run_prev [OF assms that(1)] that(2) by (auto dest: follows_Pop)
  have draw: "0 < i \<and> ?t ! (i - 1) = Pop (Some buf)"
    if "i < length ?t" and "?t ! i = Draw buf" for i buf
    using run_prev [OF assms that(1)] that(2) by (auto dest: follows_Draw)
  have check: "Suc i < length ?t
      \<and> (if a \<le> 0 then \<exists>p. ?t ! Suc i = Pop p else \<exists>a'. ?t ! Suc i = AgeDelay a')"
    if "i < length ?t" and "?t ! i = AgeCheck a" for i a
  proof -
    have "Suc i < length ?t"
      using that(2) by (intro run_not_last [OF assms that(1)]) (auto split: if_splits)
    with run_next [OF assms this] that(2) show ?thesis by (auto split: if_splits)
  qed
  show ?thesis
    unfolding RunDrawLoop_def burnExtraFrames_def Let_def
    by (intro allI impI conjI) (use pop draw check in blast)+
qed

theorem RunDrawLoop_gating_witness:
  "trace loop_test = []
   \<and> trace (snd (RunDrawLoop scripted 4 loop_test)) ! 4 = Pop (Some frame2)
   \<and> trace (snd (RunDrawLoop scripted 4 loop_test)) ! (4 - 1) = AgeCheck (Finite 0)
   \<and> Finite 0 \<le> (0::double)
   \<and> trace (snd (RunDrawLoop scripted 4 loop_test)) ! 6 = AgeCheck (Finite (1 / 128))
   \<and> \<not> Finite (1 / 128) \<le> (0::double)
   \<and> trace (snd (RunDrawLoop scripted 4 loop_test)) ! Suc 6 = AgeDelay (Finite (1 / 128))"
  using RunDrawLoop_gating [OF loop_test_trace, of scripted 4]
  by (simp add: loop_test_run loop_test_trace age_simps)

text \<open>
  Claim C7. An empty pop comes right after an age check that reported an age of at most
  0. After it the loop has neither returned nor thrown: either the run goes on, or it is
  out of fuel at this point. The run with one more unit of fuel starts with the same
  events, and in it the event right after the empty pop is the next age check of the
  inner loop: nothing is rendered, the age condition is evaluated again.
\<close>

theorem RunDrawLoop_empty_pop:
  assumes "trace s = []"
  shows "(let t = trace (snd (RunDrawLoop env fuel s));
              t' = trace (snd (RunDrawLoop env (Suc fuel) s))
          in \<forall>i<length t. t ! i = Pop None \<longrightarrow>
               0 < i \<and> (\<exists>a. a \<le> 0 \<and> t ! (i - 1) = AgeCheck a)
             \<and> (Suc i < length t \<or> fst (RunDrawLoop env fuel s) = OutOfFuel)
             \<and> take (length t) t' = t
             \<and> Suc i < length t' \<and> (\<exists>a. t' ! Suc i = AgeCheck a))"
proof -
  let ?t = "trace (snd (RunDrawLoop_with False env fuel s))"
  let ?t' = "trace (snd (RunDrawLoop_with False env (Suc fuel) s))"
  have "0 < i \<and> (\<exists>a. a \<le> 0 \<and> ?t ! (i - 1) = AgeCheck a)
      \<and> (Suc i < length ?t \<or> fst (RunDrawLoop_with False env fuel s) = OutOfFuel)
      \<and> take (length ?t) ?t' = ?t
      \<and> Suc i < length ?t' \<and> (\<exists>a. ?t' ! Suc i = AgeCheck a)"
    if "i < length ?t" and "?t ! i = Pop None" for i
  proof -
    have prev: "0 < i \<and> (\<exists>a. a \<le> 0 \<and> ?t ! (i - 1) = AgeCheck a)"
      using run_prev [OF assms that(1)] that(2) by (auto dest: follows_Pop)
    have going: "Suc i < length ?t \<or> fst (RunDrawLoop_with False env fuel s) = OutOfFuel"
      using run_last [OF assms that(1)] that(2) by auto
    obtain es where es: "?t' = ?t @ es"
      "fst (RunDrawLoop_with False env fuel s) = OutOfFuel \<longrightarrow> es \<noteq> []"
      using RunDrawLoop_with_continues [of False env fuel s] by blast
    have pre: "take (length ?t) ?t' = ?t" by (simp add: es(1))
    have len: "Suc i < length ?t'"
      using going es that(1) by (cases es) auto
    have "?t' ! i = Pop None"
      using that by (simp add: es(1) nth_append)
    with run_next [OF assms len] have "\<exists>a. ?t' ! Suc i = AgeCheck a" by simp
    with prev going pre len show ?thesis by blast
  qed
  then show ?thesis
    unfolding RunDrawLoop_def burnExtraFrames_def Let_def by blast
qed

theorem RunDrawLoop_empty_pop_witness:
  "trace loop_test = []
   \<and> trace (snd (RunDrawLoop scripted 2 loop_test)) ! 2 = Pop None
   \<and> trace (snd (RunDrawLoop scripted 2 loop_test)) ! (2 - 1) = AgeCheck (Finite 0)
   \<and> fst (RunDrawLoop scripted 2 loop_test) = OutOfFuel
   \<and> Suc 2 < length (trace (snd (RunDrawLoop scripted (Suc 2) loop_test)))
   \<and> trace (snd (RunDrawLoop scripted (Suc 2) loop_test)) ! Suc 2 = AgeCheck (Finite 0)"
proof -
  note t = RunDrawLoop_empty_pop [OF loop_test_trace, of scripted 2, unfolded Let_def, rule_format]
  show ?thesis
    using t [of 2] by (simp add: loop_test_short loop_test_trace)
qed

text \<open>
  Claim C8. In \<open>RunDrawLoop\<close>, where \<open>burnExtraFrames\<close> is \<open>false\<close>, every pop that returns a
  frame is followed at once by the call of \<open>DrawFrame\<close> on that frame; no age is read in
  between, so it does not matter whether the next buffer is due. The frame has the size
  of the surface, or the call is the last event of the run, which has thrown the
  size-mismatch error. The frames drawn are the frames popped, and what the run has put
  on the surface is their renderings, in the order of the pops: unless an index of
  \<open>DrawFrame\<close> has overflowed, which does not happen on a surface of at most \<open>2\<^sup>3\<^sup>1\<close>
  pixels, the calls of \<open>SetPixel\<close> made during the run are, for each frame popped in turn,
  the calls of a complete mirrored transfer of that frame (none for a frame of the wrong
  size). With the policy enabled, every such pop is followed by an
  age read; when that age is at most 0 the frame is dropped (the next event, if any, is
  the age check of the inner loop), otherwise \<open>DrawFrame\<close> is called on the frame; and
  \<open>DrawFrame\<close> is only ever called right after an age read that found the next buffer not
  yet due. The calls of \<open>SetPixel\<close> made are then the renderings of the frames kept, and
  of no frame that was dropped.
\<close>

theorem RunDrawLoop_backlog:
  assumes "trace s = []"
  shows "(let out = fst (RunDrawLoop env fuel s); s' = snd (RunDrawLoop env fuel s); t = trace s'
          in (\<forall>i<length t. \<forall>buf. t ! i = Pop (Some buf) \<longrightarrow>
                Suc i < length t \<and> t ! Suc i = Draw buf
              \<and> (int (length (ColorData buf)) = width (matrix s) * height (matrix s)
                 \<or> Suc (Suc i) = length t \<and> out = Threw SizeMismatch))
           \<and> drawn t = popped t
           \<and> (out \<noteq> Undefined SignedOverflow \<longrightarrow>
                calls_made (matrix s) (matrix s') =
                  concat (map (rendering (width (matrix s)) (height (matrix s))) (popped t)))
           \<and> (width (matrix s) * height (matrix s) \<le> 2 ^ 31 \<longrightarrow> out \<noteq> Undefined SignedOverflow))
       \<and> (let out = fst (RunDrawLoop_with True env fuel s); s' = snd (RunDrawLoop_with True env fuel s);
               t = trace s'
          in (\<forall>i<length t. \<forall>buf.
                (t ! i = Pop (Some buf) \<longrightarrow> Suc i < length t \<and> (\<exists>a. t ! Suc i = AgeBurn buf a))
              \<and> (\<forall>a. t ! i = AgeBurn buf a \<longrightarrow>
                    (if a \<le> 0 then Suc i < length t \<longrightarrow> (\<exists>a'. t ! Suc i = AgeCheck a')
                     else Suc i < length t \<and> t ! Suc i = Draw buf))
              \<and> (t ! i = Draw buf \<longrightarrow> 0 < i \<and> (\<exists>a. \<not> a \<le> 0 \<and> t ! (i - 1) = AgeBurn buf a)))
           \<and> drawn t = kept t
           \<and> (out \<noteq> Undefined SignedOverflow \<longrightarrow>
                calls_made (matrix s) (matrix s') =
                  concat (map (rendering (width (matrix s)) (height (matrix s))) (kept t)))
           \<and> (width (matrix s) * height (matrix s) \<le> 2 ^ 31 \<longrightarrow> out \<noteq> Undefined SignedOverflow))"
proof -
  let ?t = "trace (snd (RunDrawLoop_with False env fuel s))"
  let ?u = "trace (snd (RunDrawLoop_with True env fuel s))"
  have off: "Suc i < length ?t \<and> ?t ! Suc i = Draw buf
      \<and> (int (length (ColorData buf)) = width (matrix s) * height (matrix s)
         \<or> Suc (Suc i) = length ?t \<and> fst (RunDrawLoop_with False env fuel s) = Threw SizeMismatch)"
    if "i < length ?t" and "?t ! i = Pop (Some buf)" for i buf
  proof -
    have len: "Suc i < length ?t"
      using that(2) by (intro run_not_last [OF assms that(1)]) auto
    with run_next [OF assms this] that(2) have d: "?t ! Suc i = Draw buf" by simp
    from run_draw [OF assms len d] len d show ?thesis by simp
  qed
  have pop: "Suc i < length ?u \<and> (\<exists>a. ?u ! Suc i = AgeBurn buf a)"
    if "i < length ?u" and "?u ! i = Pop (Some buf)" for i buf
  proof -
    have "Suc i < length ?u"
      using that(2) by (intro run_not_last [OF assms that(1)]) auto
    with run_next [OF assms this] that(2) show ?thesis by simp
  qed
  have burn: "if a \<le> 0 then Suc i < length ?u \<longrightarrow> (\<exists>a'. ?u ! Suc i = AgeCheck a')
              else Suc i < length ?u \<and> ?u ! Suc i = Draw buf"
    if "i < length ?u" and "?u ! i = AgeBurn buf a" for i buf a
  proof (cases "a \<le> 0")
    case True
    then show ?thesis using run_next [OF assms, of i True env fuel] that(2) by simp
  next
    case False
    have "Suc i < length ?u"
      using that(2) False by (intro run_not_last [OF assms that(1)]) auto
    with run_next [OF assms this] that(2) False show ?thesis by simp
  qed
  have draw: "0 < i \<and> (\<exists>a. \<not> a \<le> 0 \<and> ?u ! (i - 1) = AgeBurn buf a)"
    if "i < length ?u" and "?u ! i = Draw buf" for i buf
    using run_prev [OF assms that(1)] that(2) by (auto dest: follows_Draw)
  have surface: "calls_made (matrix s) (matrix (snd (RunDrawLoop_with False env fuel s))) =
      concat (map (rendering (width (matrix s)) (height (matrix s))) (popped ?t))"
    if "fst (RunDrawLoop_with False env fuel s) \<noteq> Undefined SignedOverflow"
    using run_rendered [OF assms that] by (simp add: run_drawn(1) [OF assms])
  have surface': "calls_made (matrix s) (matrix (snd (RunDrawLoop_with True env fuel s))) =
      concat (map (rendering (width (matrix s)) (height (matrix s))) (kept ?u))"
    if "fst (RunDrawLoop_with True env fuel s) \<noteq> Undefined SignedOverflow"
    using run_rendered [OF assms that] by (simp add: run_drawn(2) [OF assms])
  have fits: "fst (RunDrawLoop_with burn env fuel s) \<noteq> Undefined SignedOverflow"
    if "width (matrix s) * height (matrix s) \<le> 2 ^ 31" for burn
  proof
    assume u: "fst (RunDrawLoop_with burn env fuel s) = Undefined SignedOverflow"
    have "drawn_ok (trace s) (matrix s)" using assms by (simp add: drawn_ok_iff)
    from RunDrawLoop_with_sizes [OF this, of burn env fuel]
    have "fits_int (matrix (snd (RunDrawLoop_with burn env fuel s)))"
      using that by (simp add: ended_ok_def fits_int_def)
    with run_facts(3) [OF assms, of burn env fuel] u show False
      by (auto simp: outer_end_iff)
  qed
  show ?thesis
    unfolding RunDrawLoop_def burnExtraFrames_def Let_def
    by (intro allI impI conjI)
       (use off pop burn draw surface surface' fits run_drawn [OF assms, of env fuel] in blast)+
qed

lemma rendering_simps:
  "rendering 2 1 frame2 = [(1, 0, (1, 2, 3)), (0, 0, (4, 5, 6))]"
  "rendering 2 1 frame3 = [(1, 0, (7, 8, 9)), (0, 0, (10, 11, 12))]"
  "rendering 2 2 frame2 = []"
  by (simp_all add: rendering_def frame_calls_def upto_rec1 pixel_of_def rgb_of_def frame2_def frame3_def)

theorem RunDrawLoop_backlog_witness:
  "trace loop_test = [] \<and> trace burn_test = [] \<and> trace throw_test = []
   \<and> trace (snd (RunDrawLoop scripted 4 loop_test)) ! 4 = Pop (Some frame2)
   \<and> trace (snd (RunDrawLoop scripted 4 loop_test)) ! Suc 4 = Draw frame2
   \<and> int (length (ColorData frame2)) = width (matrix loop_test) * height (matrix loop_test)
   \<and> popped (trace (snd (RunDrawLoop scripted 4 loop_test))) = [frame2]
   \<and> fst (RunDrawLoop scripted 4 loop_test) \<noteq> Undefined SignedOverflow
   \<and> calls_made (matrix loop_test) (matrix (snd (RunDrawLoop scripted 4 loop_test)))
       = [(1, 0, (1, 2, 3)), (0, 0, (4, 5, 6))]
   \<and> trace (snd (RunDrawLoop scripted 2 throw_test)) ! 2 = Pop (Some frame2)
   \<and> trace (snd (RunDrawLoop scripted 2 throw_test)) ! Suc 2 = Draw frame2
   \<and> Suc (Suc 2) = length (trace (snd (RunDrawLoop scripted 2 throw_test)))
   \<and> fst (RunDrawLoop scripted 2 throw_test) = Threw SizeMismatch
   \<and> calls_made (matrix throw_test) (matrix (snd (RunDrawLoop scripted 2 throw_test))) = []
   \<and> trace (snd (RunDrawLoop_with True scripted 4 burn_test)) ! 2 = Pop (Some frame2)
   \<and> trace (snd (RunDrawLoop_with True scripted 4 burn_test)) ! 3 = AgeBurn frame2 (Finite 0)
   \<and> trace (snd (RunDrawLoop_with True scripted 4 burn_test)) ! Suc 3 = AgeCheck (Finite 0)
   \<and> trace (snd (RunDrawLoop_with True scripted 4 burn_test)) ! 6 = AgeBurn frame3 (Finite 1)
   \<and> trace (snd (RunDrawLoop_with True scripted 4 burn_test)) ! Suc 6 = Draw frame3
   \<and> kept (trace (snd (RunDrawLoop_with True scripted 4 burn_test))) = [frame3]
   \<and> fst (RunDrawLoop_with True scripted 4 burn_test) \<noteq> Undefined SignedOverflow
   \<and> calls_made (matrix burn_test) (matrix (snd (RunDrawLoop_with True scripted 4 burn_test)))
       = [(1, 0, (7, 8, 9)), (0, 0, (10, 11, 12))]"
proof -
  note t = RunDrawLoop_backlog [OF loop_test_trace, of scripted 4, THEN conjunct1, unfolded Let_def]
  note v = RunDrawLoop_backlog [OF throw_test_simps(1), of scripted 2, THEN conjunct1, unfolded Let_def]
  note u = RunDrawLoop_backlog [OF burn_test_simps(1), of scripted 4, THEN conjunct2, unfolded Let_def]
  note t1 = t [THEN conjunct1, rule_format] and t3 = t [THEN conjunct2, THEN conjunct2]
  note v1 = v [THEN conjunct1, rule_format] and v3 = v [THEN conjunct2, THEN conjunct2]
  note u1 = u [THEN conjunct1, rule_format] and u3 = u [THEN conjunct2, THEN conjunct2]
  have f: "fst (RunDrawLoop scripted 2 throw_test) = Threw SizeMismatch"
    "trace (snd (RunDrawLoop scripted 2 throw_test)) =
       [InterruptRead False, AgeCheck (Finite 0), Pop (Some frame2), Draw frame2]"
    "calls (matrix (snd (RunDrawLoop scripted 2 throw_test))) = []"
    using throw_test_run [of 0] by (simp_all add: numeral_2_eq_2)
  show ?thesis
    using t1 [of 4 frame2] t3 v1 [of 2 frame2] v3 u1 [of 2 frame2] u1 [of 3 frame2] u1 [of 6 frame3] u3
    by (simp add: loop_test_run burn_test_run f loop_test_trace burn_test_simps throw_test_simps
        loop_test_matrix dims_simps frame2_length rendering_simps age_simps)
qed

text \<open>
  Claim C10, as stated, fails: an exception of \<open>DrawFrame\<close> leaves the loop as well. With
  a frame of the wrong size due, the loop ends with the size-mismatch error whatever the
  fuel, and the interrupt flag was never read as true.
\<close>

theorem RunDrawLoop_exit_counterexample:
  "\<forall>n. fst (RunDrawLoop scripted (n + 2) throw_test) = Threw SizeMismatch
     \<and> InterruptRead True \<notin> set (trace (snd (RunDrawLoop scripted (n + 2) throw_test)))"
  by (simp add: throw_test_run)

text \<open>
  Claim C10, amended. When \<open>RunDrawLoop\<close> returns, it returns \<open>true\<close> and its last event is
  a read of the interrupt flag that gave true; and a read of the flag that gives true is
  the last event of the run, which then returns \<open>true\<close>. The only other way out of the
  loop is the size-mismatch exception of \<open>DrawFrame\<close>: when the loop throws, the error is
  the size mismatch, and its last event is the call of \<open>DrawFrame\<close> on a frame whose pixel
  count is not the width times the height of the surface. (A run ends in undefined
  behaviour, which is neither a return nor an exception, only at a call of \<open>DrawFrame\<close> on
  a frame of the right size for a surface of more than \<open>2\<^sup>3\<^sup>1\<close> pixels, or at a delay
  outside the range of \<open>int64_t\<close>.)
\<close>

theorem RunDrawLoop_exit:
  assumes "trace s = []"
  shows "(let out = fst (RunDrawLoop env fuel s); s' = snd (RunDrawLoop env fuel s); t = trace s'
          in (\<forall>v. out = Returned v \<longrightarrow> v \<and> t \<noteq> [] \<and> last t = InterruptRead True)
           \<and> (\<forall>e. out = Threw e \<longrightarrow>
                 e = SizeMismatch \<and> t \<noteq> []
               \<and> (\<exists>buf. last t = Draw buf
                      \<and> int (length (ColorData buf)) \<noteq> width (matrix s) * height (matrix s)))
           \<and> (\<forall>i<length t. t ! i = InterruptRead True \<longrightarrow> Suc i = length t \<and> out = Returned True)
           \<and> (\<forall>e. out = Undefined e \<longrightarrow>
                 t \<noteq> []
               \<and> ((\<exists>buf. last t = Draw buf \<and> e = SignedOverflow
                          \<and> int (length (ColorData buf)) = width (matrix s) * height (matrix s)
                          \<and> 2 ^ 31 < width (matrix s) * height (matrix s))
                  \<or> (\<exists>a. last t = AgeDelay a \<and> e = ConversionOutOfRange
                          \<and> to_int64 (std_min kMaximumWait (double_mul a (Finite 1000000))) = None))))"
proof -
  let ?r = "RunDrawLoop_with False env fuel s"
  let ?t = "trace (snd ?r)"
  note e = run_facts(3) [OF assms, of False env fuel]
  have ret: "v \<and> ?t \<noteq> [] \<and> last ?t = InterruptRead True" if "fst ?r = Returned v" for v
    using e that by (simp add: outer_end_iff)
  have "drawn_ok (trace s) (matrix s)" using assms by (simp add: drawn_ok_iff)
  from RunDrawLoop_with_sizes [OF this, of False env fuel]
  have dims: "width (matrix (snd ?r)) = width (matrix s)" "height (matrix (snd ?r)) = height (matrix s)"
    by (simp_all add: ended_ok_def)
  have thr: "e = SizeMismatch \<and> ?t \<noteq> []
       \<and> (\<exists>buf. last ?t = Draw buf
              \<and> int (length (ColorData buf)) \<noteq> width (matrix s) * height (matrix s))"
    if "fst ?r = Threw e" for e
    using e that dims by (simp add: outer_end_iff mismatch_def)
  have flag: "Suc i = length ?t \<and> fst ?r = Returned True"
    if "i < length ?t" and "?t ! i = InterruptRead True" for i
  proof -
    have n: "\<not> Suc i < length ?t"
      using run_next [OF assms, of i False env fuel] that(2) by auto
    from n that(1) have "Suc i = length ?t" by simp
    with run_last [OF assms that(1) n] that show ?thesis by auto
  qed
  have und: "?t \<noteq> []
       \<and> ((\<exists>buf. last ?t = Draw buf \<and> e = SignedOverflow
                  \<and> int (length (ColorData buf)) = width (matrix s) * height (matrix s)
                  \<and> 2 ^ 31 < width (matrix s) * height (matrix s))
          \<or> (\<exists>a. last ?t = AgeDelay a \<and> e = ConversionOutOfRange
                  \<and> to_int64 (std_min kMaximumWait (double_mul a (Finite 1000000))) = None))"
    if "fst ?r = Undefined e" for e
    using e that dims by (auto simp: outer_end_iff mismatch_def fits_int_def)
  show ?thesis
    unfolding RunDrawLoop_def burnExtraFrames_def Let_def
    by (intro allI impI conjI) (use ret thr flag und in blast)+
qed

theorem RunDrawLoop_exit_witness:
  "trace loop_test = []
   \<and> fst (RunDrawLoop scripted 4 loop_test) = Returned True
   \<and> last (trace (snd (RunDrawLoop scripted 4 loop_test))) = InterruptRead True
   \<and> trace (snd (RunDrawLoop scripted 4 loop_test)) ! 13 = InterruptRead True
   \<and> Suc 13 = length (trace (snd (RunDrawLoop scripted 4 loop_test)))"
proof -
  note t = RunDrawLoop_exit [OF loop_test_trace, of scripted 4, unfolded Let_def]
  show ?thesis
    using t [THEN conjunct1, rule_format, of True] t [THEN conjunct2, THEN conjunct2, THEN conjunct1, rule_format, of 13]
    by (simp add: loop_test_run loop_test_trace)
qed

end
